theory Spec2Isabelle
  imports Main "HOL-Library.Sublist"
begin

section \<open>Strings and the regular expressions of the program\<close>

text \<open>
  A Python \<open>str\<close> is a sequence of code points, modelled as a list. The tokenizer is
  polymorphic in the type of code points; the functions that mention string literals work
  on \<^typ>\<open>string\<close>, whose characters stand for the code points below 256.

  The functions modelled here use four patterns of Python's \<open>re\<close> module: the one of the
  tokenizer, \<open>\w\<close> alone, and the two of the example generator. A pattern is a value of
  \<open>rx\<close>; the classes \<open>\w\<close> and \<open>\s\<close> and bracket classes are predicates on code
  points, \<open>\b\<close> carries the predicate of \<open>\w\<close>, \<open>$\<close> carries the newline and \<open>Eps\<close>
  is the empty pattern that ends a literal word.
\<close>

datatype 'a rx =
    Cls "'a \<Rightarrow> bool"
  | Bol
  | Eol 'a
  | Bnd "'a \<Rightarrow> bool"
  | Seq "'a rx" "'a rx"
  | Alt "'a rx" "'a rx"
  | Star "'a rx"
  | Eps

definition Plus :: "'a rx \<Rightarrow> 'a rx" where
  "Plus r = Seq r (Star r)"

text \<open>
  The matcher looks at a position of the subject string: \<open>prev\<close> is the code point before
  the position (\<open>None\<close> at the start of the string) and \<open>cs\<close> is the rest of the string
  from the position on.
\<close>

definition at_word :: "('a \<Rightarrow> bool) \<Rightarrow> 'a option \<Rightarrow> bool" where
  "at_word w prev = (case prev of None \<Rightarrow> False | Some c \<Rightarrow> w c)"

definition starts_word :: "('a \<Rightarrow> bool) \<Rightarrow> 'a list \<Rightarrow> bool" where
  "starts_word w cs = (case cs of [] \<Rightarrow> False | c # _ \<Rightarrow> w c)"

definition prev_at :: "'a option \<Rightarrow> 'a list \<Rightarrow> nat \<Rightarrow> 'a option" where
  "prev_at prev cs n = (case rev (take n cs) of [] \<Rightarrow> prev | c # _ \<Rightarrow> Some c)"

text \<open>
  \<open>ends r prev cs\<close> lists the lengths of the matches of \<open>r\<close> at the position, in the
  order in which the backtracking matcher of \<open>re\<close> finds them: the first alternative
  before the second, and for the greedy \<open>*\<close> one more iteration before stopping. An
  iteration of \<open>*\<close> that consumes nothing ends the repetition.
\<close>

function ends :: "'a rx \<Rightarrow> 'a option \<Rightarrow> 'a list \<Rightarrow> nat list" where
  "ends (Cls p) prev cs = (case cs of [] \<Rightarrow> [] | c # _ \<Rightarrow> if p c then [1] else [])"
| "ends Bol prev cs = (if prev = None then [0] else [])"
| "ends (Eol nl) prev cs = (if cs = [] \<or> cs = [nl] then [0] else [])"
| "ends (Bnd w) prev cs = (if at_word w prev \<noteq> starts_word w cs then [0] else [])"
| "ends (Seq r1 r2) prev cs =
     concat (map (\<lambda>n. map ((+) n) (ends r2 (prev_at prev cs n) (drop n cs)))
                 (ends r1 prev cs))"
| "ends (Alt r1 r2) prev cs = ends r1 prev cs @ ends r2 prev cs"
| "ends (Star r) prev cs =
     concat (map (\<lambda>n. map ((+) n) (ends (Star r) (prev_at prev cs n) (drop n cs)))
                 (filter (\<lambda>n. 0 < n \<and> n \<le> length cs) (ends r prev cs))) @ [0]"
| "ends Eps prev cs = [0]"
  by pat_completeness auto
termination
  by (relation "measures [\<lambda>(r, prev, cs). size r, \<lambda>(r, prev, cs). length cs]") auto

text \<open>
  The equations of \<open>Seq\<close> and \<open>Star\<close> are no simplification rules: the one of \<open>Star\<close>
  unfolds into itself. \<open>then_ends\<close> names the continuation of a match by the next part of
  the pattern, and the lemmas below unfold \<open>Star\<close> along the string.
\<close>

declare ends.simps(5) [simp del]
declare ends.simps(7) [simp del]

definition then_ends :: "nat list \<Rightarrow> 'a rx \<Rightarrow> 'a option \<Rightarrow> 'a list \<Rightarrow> nat list" where
  "then_ends ns r prev cs =
     concat (map (\<lambda>n. map ((+) n) (ends r (prev_at prev cs n) (drop n cs))) ns)"

lemma ends_Seq: "ends (Seq r1 r2) prev cs = then_ends (ends r1 prev cs) r2 prev cs"
  by (simp add: then_ends_def ends.simps(5))

lemma ends_Star_Nil: "ends (Star r) prev [] = [0]"
  by (subst ends.simps(7)) simp

lemma ends_Star_Cons:
  "ends (Star r) prev (c # cs) =
     concat (map (\<lambda>n. map ((+) n) (ends (Star r) (prev_at prev (c # cs) n) (drop n (c # cs))))
                 (filter (\<lambda>n. 0 < n \<and> n \<le> Suc (length cs)) (ends r prev (c # cs)))) @ [0]"
  by (subst ends.simps(7)) simp

text \<open>
  One attempt at a position. \<open>must_advance\<close> is the flag of the \<open>re\<close> engine that is set
  after an empty match: the next match may not be empty at the same position.
\<close>

definition match_at :: "'a rx \<Rightarrow> bool \<Rightarrow> 'a option \<Rightarrow> 'a list \<Rightarrow> nat option" where
  "match_at r must_advance prev cs =
     (case filter (\<lambda>n. \<not> (must_advance \<and> n = 0)) (ends r prev cs) of
        [] \<Rightarrow> None
      | n # _ \<Rightarrow> Some n)"

text \<open>
  The search tries every position from the current one to the end of the string and
  returns the offset of the leftmost match and its length.
\<close>

fun search :: "'a rx \<Rightarrow> bool \<Rightarrow> 'a option \<Rightarrow> 'a list \<Rightarrow> (nat \<times> nat) option" where
  "search r must_advance prev [] =
     (case match_at r must_advance prev [] of
        None \<Rightarrow> None
      | Some n \<Rightarrow> Some (0, n))"
| "search r must_advance prev (c # cs) =
     (case match_at r must_advance prev (c # cs) of
        Some n \<Rightarrow> Some (0, n)
      | None \<Rightarrow>
          (case search r False (Some c) cs of
             None \<Rightarrow> None
           | Some (k, n) \<Rightarrow> Some (Suc k, n)))"

lemma ends_le: "n \<in> set (ends r prev cs) \<Longrightarrow> n \<le> length cs"
proof (induction r prev cs arbitrary: n rule: ends.induct)
  case (1 p prev cs)
  then show ?case by (cases cs) (auto split: if_splits)
next
  case (5 r1 r2 prev cs)
  from "5.prems" obtain a b where a: "a \<in> set (ends r1 prev cs)"
    and b: "b \<in> set (ends r2 (prev_at prev cs a) (drop a cs))" and n: "n = a + b"
    by (auto simp: ends.simps(5))
  from "5.IH"(1) [OF a] have "a \<le> length cs" .
  moreover from "5.IH"(2) [OF a b] have "b \<le> length cs - a" by simp
  ultimately show ?case using n by simp
next
  case (7 r prev cs)
  show ?case
  proof (cases "n = 0")
    case True
    then show ?thesis by simp
  next
    case False
    from "7.prems" have "n \<in> set (concat (map (\<lambda>n. map ((+) n)
              (ends (Star r) (prev_at prev cs n) (drop n cs)))
              (filter (\<lambda>n. 0 < n \<and> n \<le> length cs) (ends r prev cs))) @ [0])"
      by (subst (asm) ends.simps(7))
    with False obtain a b where a: "a \<in> set (ends r prev cs)" and a0: "0 < a"
      and al: "a \<le> length cs"
      and b: "b \<in> set (ends (Star r) (prev_at prev cs a) (drop a cs))" and n: "n = a + b"
      by auto
    from a a0 al have "a \<in> set (filter (\<lambda>n. 0 < n \<and> n \<le> length cs) (ends r prev cs))"
      by simp
    from "7.IH"(2) [OF this b] have "b \<le> length cs - a" by simp
    with al n show ?thesis by simp
  qed
qed (auto split: if_splits)

lemma match_at_Some:
  assumes "match_at r adv prev cs = Some n"
  shows "n \<in> set (ends r prev cs)" and "\<not> (adv \<and> n = 0)"
proof -
  from assms obtain ns where
    "filter (\<lambda>n. \<not> (adv \<and> n = 0)) (ends r prev cs) = n # ns"
    by (auto simp: match_at_def split: list.splits)
  then have "n \<in> set (filter (\<lambda>n. \<not> (adv \<and> n = 0)) (ends r prev cs))"
    by (metis list.set_intros(1))
  then show "n \<in> set (ends r prev cs)" and "\<not> (adv \<and> n = 0)"
    by simp_all
qed

lemma match_at_le: "match_at r adv prev cs = Some n \<Longrightarrow> n \<le> length cs"
  by (rule ends_le) (rule match_at_Some)

lemma match_at_advance: "match_at r True prev cs = Some n \<Longrightarrow> 0 < n"
  using match_at_Some(2) [of r True prev cs n] by simp

lemma search_le: "search r adv prev cs = Some (k, n) \<Longrightarrow> k + n \<le> length cs"
proof (induction cs arbitrary: adv prev k)
  case Nil
  then show ?case by (auto split: option.splits dest: match_at_le)
next
  case (Cons c cs)
  then show ?case by (fastforce split: option.splits dest: match_at_le)
qed

lemma search_advance: "search r True prev cs = Some (k, n) \<Longrightarrow> 0 < k + n"
  by (cases cs) (auto split: option.splits dest: match_at_advance)

text \<open>
  The iteration shared by \<open>re.findall\<close>, \<open>re.split\<close> and \<open>re.sub\<close>: search from the end
  of the previous match, record the text skipped and the text matched, and go on from the
  end of the match. The result is the list of (skipped text, matched text) and the text
  after the last match.
\<close>

function scan ::
  "'a rx \<Rightarrow> bool \<Rightarrow> 'a option \<Rightarrow> 'a list \<Rightarrow> ('a list \<times> 'a list) list \<times> 'a list" where
  "scan r must_advance prev cs =
     (case search r must_advance prev cs of
        None \<Rightarrow> ([], cs)
      | Some (k, n) \<Rightarrow>
          (case scan r (n = 0) (prev_at prev cs (k + n)) (drop (k + n) cs) of
             (ps, rest) \<Rightarrow> ((take k cs, take n (drop k cs)) # ps, rest)))"
  by pat_completeness auto
termination
proof (relation "measure (\<lambda>(r, adv, prev, cs). 2 * length cs + (if adv then 0 else 1))",
       goal_cases)
  case 1
  show ?case by simp
next
  case (2 r adv prev cs x k n)
  then have s: "search r adv prev cs = Some (k, n)" by simp
  from search_le [OF s] have le: "k + n \<le> length cs" .
  show ?case
  proof (cases adv)
    case True
    with s have "search r True prev cs = Some (k, n)" by simp
    then have "0 < k + n" by (rule search_advance)
    with le True show ?thesis by auto
  next
    case False
    with le show ?thesis by auto
  qed
qed

declare scan.simps [simp del]

text \<open>
  \<open>re.findall\<close> for a pattern without groups, or whose only group encloses the whole
  pattern, returns the matched texts. \<open>re.split\<close> for a pattern that is one capturing group
  returns the skipped text and the text of the group for every match, and the text after
  the last match. \<open>re.sub\<close> with the empty replacement keeps the skipped texts.
\<close>

definition re_findall :: "'a rx \<Rightarrow> 'a list \<Rightarrow> 'a list list" where
  "re_findall r s = map snd (fst (scan r False None s))"

definition re_split :: "'a rx \<Rightarrow> 'a list \<Rightarrow> 'a list list" where
  "re_split r s =
     concat (map (\<lambda>(gap, m). [gap, m]) (fst (scan r False None s)))
       @ [snd (scan r False None s)]"

definition re_sub_empty :: "'a rx \<Rightarrow> 'a list \<Rightarrow> 'a list" where
  "re_sub_empty r s =
     concat (map fst (fst (scan r False None s))) @ snd (scan r False None s)"

section \<open>word_tokenizer.py\<close>

text \<open>The pattern \<open>\b\w+\b\<close>; \<open>w\<close> is the class \<open>\w\<close>.\<close>

definition word_rx :: "('a \<Rightarrow> bool) \<Rightarrow> 'a rx" where
  "word_rx w = Seq (Bnd w) (Seq (Plus (Cls w)) (Bnd w))"

definition tokenize_sentence :: "('a \<Rightarrow> bool) \<Rightarrow> 'a list \<Rightarrow> 'a list list" where
  "tokenize_sentence w sentence =
     (if sentence = [] then [] else re_findall (word_rx w) sentence)"

definition split_sentence_with_delimiters :: "('a \<Rightarrow> bool) \<Rightarrow> 'a list \<Rightarrow> 'a list list" where
  "split_sentence_with_delimiters w sentence =
     (if sentence = [] then []
      else filter (\<lambda>part. part \<noteq> []) (re_split (word_rx w) sentence))"

text \<open>
  Python's \<open>\w\<close> on the code points below 256: the ASCII letters, digits and the
  underscore, and the alphanumeric characters of Latin-1.
\<close>

definition py_word :: "char \<Rightarrow> bool" where
  "py_word c =
     (let n = (of_char c :: nat)
      in (48 \<le> n \<and> n \<le> 57) \<or> (65 \<le> n \<and> n \<le> 90) \<or> n = 95 \<or> (97 \<le> n \<and> n \<le> 122)
         \<or> n = 170 \<or> n = 178 \<or> n = 179 \<or> n = 181 \<or> n = 185 \<or> n = 186
         \<or> (188 \<le> n \<and> n \<le> 190) \<or> (192 \<le> n \<and> n \<le> 214) \<or> (216 \<le> n \<and> n \<le> 246)
         \<or> 248 \<le> n)"

section \<open>Strings\<close>

text \<open>
  \<open>str.isspace\<close>, which is also the class \<open>\s\<close>, and \<open>str.lower\<close> on the code points
  below 256; \<open>str.strip\<close>; the test \<open>sub in s\<close>; and \<open>s.split(sep)[0]\<close> for a separator
  that is not empty: the text before the first occurrence of the separator.
\<close>

definition is_space :: "char \<Rightarrow> bool" where
  "is_space c =
     (let n = (of_char c :: nat)
      in (9 \<le> n \<and> n \<le> 13) \<or> (28 \<le> n \<and> n \<le> 32) \<or> n = 133 \<or> n = 160)"

definition lower_char :: "char \<Rightarrow> char" where
  "lower_char c =
     (let n = (of_char c :: nat)
      in if (65 \<le> n \<and> n \<le> 90) \<or> (192 \<le> n \<and> n \<le> 222 \<and> n \<noteq> 215)
         then char_of (n + 32) else c)"

definition py_lower :: "string \<Rightarrow> string" where
  "py_lower s = map lower_char s"

definition strip :: "string \<Rightarrow> string" where
  "strip s = rev (dropWhile is_space (rev (dropWhile is_space s)))"

fun str_in :: "'a list \<Rightarrow> 'a list \<Rightarrow> bool" where
  "str_in sub [] = (sub = [])"
| "str_in sub (c # cs) = (prefix sub (c # cs) \<or> str_in sub cs)"

fun split_head :: "'a list \<Rightarrow> 'a list \<Rightarrow> 'a list" where
  "split_head sep [] = []"
| "split_head sep (c # cs) = (if prefix sep (c # cs) then [] else c # split_head sep cs)"

text \<open>Truthiness of a value of type \<open>str | None\<close> or \<open>bytes | None\<close>.\<close>

definition truthy :: "'a list option \<Rightarrow> bool" where
  "truthy v = (case v of None \<Rightarrow> False | Some x \<Rightarrow> x \<noteq> [])"

section \<open>The services the program calls\<close>

text \<open>
  The translation provider, the language model and the two speech engines are outside the
  program. Each is a function of the calls made so far and of the arguments of the call, so
  that a service may answer the same request differently the second time. Every function
  of the program that calls a service takes the list of the calls made so far and returns
  it extended.

  An exception of the HTTP request is named by the \<open>except\<close> clause of \<open>translate_text\<close>
  that catches it: \<open>Timeout\<close>, another \<open>RequestException\<close>, a \<open>ValueError\<close> that is no
  \<open>RequestException\<close>, or any other \<open>Exception\<close>. \<open>Get_raised\<close> is an exception of
  \<open>requests.get\<close> itself, raised before the variable \<open>response\<close> is bound (a
  \<open>ValueError\<close> there is, for one, the \<open>UnicodeEncodeError\<close> of a text that cannot be
  encoded); \<open>Reply_raised\<close> is an exception of \<open>raise_for_status\<close>, of \<open>response.json\<close>
  or of reading the parsed reply, raised after \<open>response\<close> is bound. \<open>Http_json t\<close> is a
  reply that parses as a JSON object whose field \<open>responseData.translatedText\<close> is the
  string \<open>t\<close>, or is null or missing (\<open>None\<close>); the function is declared to return
  \<open>str | None\<close>, and a field of another JSON type is not modelled. \<open>Chat_content c\<close> is
  a reply of the model whose field \<open>message.content\<close> is \<open>c\<close> (the empty string when it
  is missing). A speech engine returns the encoded audio, or \<open>None\<close> when it raises.
\<close>

datatype exn = Timeout | RequestException | ValueError | OtherException

datatype http_outcome = Get_raised exn | Reply_raised exn | Http_json "string option"

text \<open>The exceptions that leave a function of the program.\<close>

datatype error = AttributeError | UnboundLocalError

datatype chat_outcome = Chat_raised | Chat_content string

type_synonym bytes = string

datatype call =
    Http_get string "(string \<times> string) list"
  | Ollama_chat string string
  | Hf_synth string
  | Gtts_synth string string

record env =
  http_get :: "call list \<Rightarrow> string \<Rightarrow> (string \<times> string) list \<Rightarrow> http_outcome"
  ollama_chat :: "call list \<Rightarrow> string \<Rightarrow> string \<Rightarrow> chat_outcome"
  hf_synth :: "call list \<Rightarrow> string \<Rightarrow> bytes option"
  gtts_synth :: "call list \<Rightarrow> string \<Rightarrow> string \<Rightarrow> bytes option"

section \<open>translation_api.py\<close>

definition api_url :: string where
  "api_url = ''https://api.mymemory.translated.net/get''"

definition params :: "string \<Rightarrow> string \<Rightarrow> string \<Rightarrow> (string \<times> string) list" where
  "params text_to_translate source_lang target_lang =
     [(''q'', text_to_translate), (''langpair'', source_lang @ ''|'' @ target_lang)]"

text \<open>
  The body of the \<open>try\<close> block: it returns the text or \<open>None\<close>, or it raises; the
  exception comes with whether \<open>response\<close> is bound.
\<close>

definition translate_try ::
  "env \<Rightarrow> string \<Rightarrow> string \<Rightarrow> string \<Rightarrow> call list \<Rightarrow> (exn \<times> bool) + string option" where
  "translate_try e text_to_translate source_lang target_lang log =
     (case http_get e log api_url (params text_to_translate source_lang target_lang) of
        Get_raised x \<Rightarrow> Inl (x, False)
      | Reply_raised x \<Rightarrow> Inl (x, True)
      | Http_json translated_text \<Rightarrow>
          (if truthy translated_text
           then (if str_in ''MYMEMORY WARNING'' (the translated_text)
                 then Inr (Some (strip (split_head '' MT ''
                                   (split_head '' NMT'' (the translated_text)))))
                 else Inr translated_text)
           else Inr None))"

text \<open>
  The \<open>except\<close> clauses log and fall through to the final \<open>return None\<close>. The clause of
  \<open>ValueError\<close> logs \<open>response.text\<close>: when \<open>response\<close> is not bound, reading it raises
  \<open>UnboundLocalError\<close>, which leaves the function.
\<close>

definition translate_text ::
  "env \<Rightarrow> string \<Rightarrow> string \<Rightarrow> string \<Rightarrow> call list
     \<Rightarrow> (error + string option) \<times> call list" where
  "translate_text e text_to_translate source_lang target_lang log =
     (if text_to_translate = [] then (Inr None, log)
      else
        (case translate_try e text_to_translate source_lang target_lang log of
           Inr translated_text \<Rightarrow> Inr translated_text
         | Inl (Timeout, response_bound) \<Rightarrow> Inr None
         | Inl (RequestException, response_bound) \<Rightarrow> Inr None
         | Inl (ValueError, response_bound) \<Rightarrow>
             if response_bound then Inr None else Inl UnboundLocalError
         | Inl (OtherException, response_bound) \<Rightarrow> Inr None,
         log @ [Http_get api_url (params text_to_translate source_lang target_lang)]))"

section \<open>ollama_utils.py\<close>

definition OLLAMA_MODEL_NAME :: string where
  "OLLAMA_MODEL_NAME = ''llama3:8b''"

text \<open>
  The two patterns of the post-processing. The first is
  \<^verbatim>\<open>^\s*["`'\*>\-\s]+|["`'\*]+\s*$\<close>; the second is \<^verbatim>\<open>^(Beispiel|Example)\s*:\s*\<close>
  with the flag \<open>IGNORECASE\<close>, under which a letter of the pattern matches the code points
  with the same lower case.
\<close>

definition quote_char :: "char \<Rightarrow> bool" where
  "quote_char c = (c = CHR 0x22 \<or> c = CHR 0x60 \<or> c = CHR 0x27 \<or> c = CHR ''*'')"

definition lead_char :: "char \<Rightarrow> bool" where
  "lead_char c = (quote_char c \<or> c = CHR ''>'' \<or> c = CHR ''-'' \<or> is_space c)"

definition marks_rx :: "char rx" where
  "marks_rx =
     Alt (Seq Bol (Seq (Star (Cls is_space)) (Plus (Cls lead_char))))
         (Seq (Plus (Cls quote_char)) (Seq (Star (Cls is_space)) (Eol (CHR 0x0A))))"

definition same_letter :: "char \<Rightarrow> char \<Rightarrow> bool" where
  "same_letter x c = (lower_char c = lower_char x)"

fun lit_ci :: "string \<Rightarrow> char rx" where
  "lit_ci [] = Eps"
| "lit_ci (x # xs) = Seq (Cls (same_letter x)) (lit_ci xs)"

declare lit_ci.simps [simp del]

definition prefix_rx :: "char rx" where
  "prefix_rx =
     Seq Bol
       (Seq (Alt (lit_ci ''Beispiel'') (lit_ci ''Example''))
          (Seq (Star (Cls is_space))
             (Seq (Cls (\<lambda>c. c = CHR '':'')) (Star (Cls is_space)))))"

text \<open>The two \<open>re.sub\<close> lines, each followed by \<open>strip\<close>.\<close>

definition clean_sentence :: "string \<Rightarrow> string" where
  "clean_sentence sentence =
     strip (re_sub_empty prefix_rx (strip (re_sub_empty marks_rx sentence)))"

text \<open>
  The post-processing as steps on lists. \<open>clean_stepwise\<close> strips the leading run of
  quote, markdown and bullet characters and white space, then the trailing run of the
  characters \<^verbatim>\<open>" ` ' *\<close>, then a leading label "Beispiel:" or "Example:" in any case, with
  white space allowed around the colon; white space is stripped before and after each
  step. \<open>clean_symmetric\<close> is the post-processing as the specification words it, with the
  same characters stripped at both ends: "strip leading/trailing quote/markdown/bullet
  characters; strip a leading Example:-style prefix".
\<close>

definition strip_leading_marks :: "string \<Rightarrow> string" where
  "strip_leading_marks s = dropWhile lead_char s"

definition strip_trailing_quotes :: "string \<Rightarrow> string" where
  "strip_trailing_quotes s = rev (dropWhile quote_char (rev s))"

definition rest_after_colon :: "string \<Rightarrow> string option" where
  "rest_after_colon t =
     (case dropWhile is_space t of
        [] \<Rightarrow> None
      | c # u \<Rightarrow> if c = CHR '':'' then Some (dropWhile is_space u) else None)"

definition strip_label :: "string \<Rightarrow> string" where
  "strip_label s =
     (if prefix ''beispiel'' (py_lower s)
      then (case rest_after_colon (drop 8 s) of None \<Rightarrow> s | Some t \<Rightarrow> t)
      else if prefix ''example'' (py_lower s)
      then (case rest_after_colon (drop 7 s) of None \<Rightarrow> s | Some t \<Rightarrow> t)
      else s)"

definition clean_stepwise :: "string \<Rightarrow> string" where
  "clean_stepwise raw =
     strip (strip_label (strip (strip_trailing_quotes (strip_leading_marks (strip raw)))))"

definition clean_symmetric :: "string \<Rightarrow> string" where
  "clean_symmetric raw =
     strip (strip_label (strip (rev (dropWhile lead_char
                                       (rev (dropWhile lead_char (strip raw)))))))"

text \<open>
  The request carries the name of the model and the word; the prompt is a fixed text
  around the word. The two checks after the cleaning only write to the log. Every
  exception is caught and gives \<open>None\<close>.
\<close>

definition get_german_example_sentence_ollama ::
  "env \<Rightarrow> string \<Rightarrow> call list \<Rightarrow> string option \<times> call list" where
  "get_german_example_sentence_ollama e german_word log =
     (if german_word = [] then (None, log)
      else
        (case ollama_chat e log OLLAMA_MODEL_NAME german_word of
           Chat_raised \<Rightarrow> None
         | Chat_content content \<Rightarrow>
             (let sentence = strip content
              in if sentence = [] then None else Some (clean_sentence sentence)),
         log @ [Ollama_chat OLLAMA_MODEL_NAME german_word]))"

section \<open>tts_utils.py\<close>

text \<open>
  The module's globals after import: the configured engine, whether the libraries of each
  engine were imported, and whether the processor and the model were loaded. The functions
  \<open>_generate_speech_audio_hf\<close> and \<open>_generate_speech_audio_gtts\<close> are written without
  the leading underscore.
\<close>

record tts_config =
  TTS_ENGINE :: string
  hf_libraries_installed :: bool
  hf_loaded :: bool
  gtts_installed :: bool

type_synonym speech = "bytes option \<times> string option \<times> string option"

definition no_speech :: speech where
  "no_speech = (None, None, None)"

definition generate_speech_audio_hf ::
  "tts_config \<Rightarrow> env \<Rightarrow> string \<Rightarrow> call list \<Rightarrow> speech \<times> call list" where
  "generate_speech_audio_hf cfg e text log =
     (if \<not> (hf_libraries_installed cfg \<and> hf_loaded cfg) \<or> text = [] then (no_speech, log)
      else
        (case hf_synth e log text of
           None \<Rightarrow> no_speech
         | Some audio_bytes \<Rightarrow> (Some audio_bytes, Some ''audio/wav'', Some ''Hugging Face''),
         log @ [Hf_synth text]))"

definition generate_speech_audio_gtts ::
  "tts_config \<Rightarrow> env \<Rightarrow> string \<Rightarrow> string \<Rightarrow> call list \<Rightarrow> speech \<times> call list" where
  "generate_speech_audio_gtts cfg e text lang log =
     (if \<not> (gtts_installed cfg \<and> text \<noteq> []) then (no_speech, log)
      else
        (case gtts_synth e log text lang of
           None \<Rightarrow> no_speech
         | Some audio_bytes \<Rightarrow> (Some audio_bytes, Some ''audio/mp3'', Some ''gTTS''),
         log @ [Gtts_synth text lang]))"

text \<open>The first \<open>if\<close>/\<open>elif\<close> of \<open>generate_speech_audio\<close>: the configured engine.\<close>

definition primary_speech ::
  "tts_config \<Rightarrow> env \<Rightarrow> string \<Rightarrow> string \<Rightarrow> call list \<Rightarrow> speech \<times> call list" where
  "primary_speech cfg e text lang log =
     (if TTS_ENGINE cfg = ''huggingface'' \<and> hf_libraries_installed cfg \<and> hf_loaded cfg
      then generate_speech_audio_hf cfg e text log
      else if TTS_ENGINE cfg = ''gtts'' \<and> gtts_installed cfg
      then generate_speech_audio_gtts cfg e text lang log
      else (no_speech, log))"

definition tag_fallback :: "speech \<Rightarrow> speech" where
  "tag_fallback r =
     (case r of (audio_bytes, audio_format, engine_name) \<Rightarrow>
        (audio_bytes, audio_format,
         if truthy engine_name then Some (the engine_name @ '' (Fallback)'') else engine_name))"

definition generate_speech_audio ::
  "tts_config \<Rightarrow> env \<Rightarrow> string \<Rightarrow> string \<Rightarrow> call list \<Rightarrow> speech \<times> call list" where
  "generate_speech_audio cfg e text lang log =
     (case primary_speech cfg e text lang log of
        (r, log1) \<Rightarrow>
          if fst r = None \<and> gtts_installed cfg
          then (case generate_speech_audio_gtts cfg e text lang log1 of
                  (r2, log2) \<Rightarrow> (tag_fallback r2, log2))
          else (r, log1))"

section \<open>app.py\<close>

text \<open>
  The session state of the page, with the value of the text area under its widget key
  (\<open>None\<close> when the key is not in the session state).
\<close>

record session_state =
  input_sentence :: string
  word_translation_result :: "(string \<times> string) option"
  sentence_translation_result :: "string option"
  active_translation_word :: "string option"
  german_example_sentence_result :: "string option"
  english_example_translation_result :: "string option"
  show_word_buttons :: bool
  tts_audio_bytes :: "bytes option"
  tts_audio_format :: "string option"
  sentence_input_widget :: "string option"

subsection \<open>The word buttons\<close>

definition re_search :: "'a rx \<Rightarrow> 'a list \<Rightarrow> (nat \<times> nat) option" where
  "re_search r s = search r False None s"

definition words_with_original_case :: "('a \<Rightarrow> bool) \<Rightarrow> 'a list list \<Rightarrow> 'a list list" where
  "words_with_original_case w parts = filter (\<lambda>part. re_search (Cls w) part \<noteq> None) parts"

text \<open>
  The loop over \<open>words_with_original_case\<close> with the dictionary \<open>unique_words_tracker\<close>
  and the list \<open>display_words_list\<close>; \<open>lower\<close> is \<open>str.lower\<close>.
\<close>

fun display_words_loop ::
  "('a list \<Rightarrow> 'a list) \<Rightarrow> 'a list list \<Rightarrow> ('a list \<rightharpoonup> 'a list) \<Rightarrow> 'a list list
     \<Rightarrow> 'a list list" where
  "display_words_loop lower [] unique_words_tracker display_words_list = display_words_list"
| "display_words_loop lower (word # ws) unique_words_tracker display_words_list =
     (let lower_word = lower word
      in if unique_words_tracker lower_word = None
         then display_words_loop lower ws (unique_words_tracker(lower_word \<mapsto> word))
                (display_words_list @ [word])
         else display_words_loop lower ws unique_words_tracker display_words_list)"

definition display_words_list :: "('a list \<Rightarrow> 'a list) \<Rightarrow> 'a list list \<Rightarrow> 'a list list" where
  "display_words_list lower ws = display_words_loop lower ws Map.empty []"

definition word_buttons ::
  "('a \<Rightarrow> bool) \<Rightarrow> ('a list \<Rightarrow> 'a list) \<Rightarrow> 'a list \<Rightarrow> 'a list list" where
  "word_buttons w lower current_sentence =
     display_words_list lower
       (words_with_original_case w (split_sentence_with_delimiters w current_sentence))"

subsection \<open>The transitions\<close>

text \<open>
  \<open>update_input_state\<close>, the callback of the text area. Reading the widget key as an
  attribute raises when the key is missing.
\<close>

definition update_input_state :: "session_state \<Rightarrow> error + session_state" where
  "update_input_state s =
     (if input_sentence s \<noteq> (case sentence_input_widget s of None \<Rightarrow> [] | Some v \<Rightarrow> v)
      then (case sentence_input_widget s of
              None \<Rightarrow> Inl AttributeError
            | Some v \<Rightarrow>
                Inr (s\<lparr>input_sentence := v,
                       word_translation_result := None,
                       sentence_translation_result := None,
                       active_translation_word := None,
                       german_example_sentence_result := None,
                       english_example_translation_result := None,
                       show_word_buttons := False,
                       tts_audio_bytes := None\<rparr>))
      else Inr s)"

text \<open>The handler of the button \<open>toggle_words_btn\<close>.\<close>

definition toggle_words :: "session_state \<Rightarrow> session_state" where
  "toggle_words s =
     (let s1 = s\<lparr>show_word_buttons := \<not> show_word_buttons s\<rparr>
      in if \<not> show_word_buttons s1
         then s1\<lparr>active_translation_word := None,
                 word_translation_result := None,
                 german_example_sentence_result := None,
                 english_example_translation_result := None,
                 tts_audio_bytes := None\<rparr>
         else s1)"

text \<open>
  A callback that calls \<open>translate_text\<close> ends with the session state, the calls made, and
  the exception that left it, if one did. The assignments made before the exception stay
  in the session state.

  \<open>handle_word_click\<close> in its four steps: the assignments before the first request, the
  translation of the word, the example, and the translation of the example.
\<close>

definition word_click_reset :: "string \<Rightarrow> session_state \<Rightarrow> session_state" where
  "word_click_reset word s =
     s\<lparr>active_translation_word := Some word,
       sentence_translation_result := None,
       word_translation_result := None,
       german_example_sentence_result := None,
       english_example_translation_result := None,
       tts_audio_bytes := None\<rparr>"

definition word_click_translate ::
  "env \<Rightarrow> string \<Rightarrow> session_state \<times> call list
     \<Rightarrow> session_state \<times> call list \<times> error option" where
  "word_click_translate e word sl =
     (case sl of (s, log) \<Rightarrow>
        (case translate_text e word ''de'' ''en'' log of
           (Inl x, log1) \<Rightarrow> (s, log1, Some x)
         | (Inr english_translation, log1) \<Rightarrow>
             (s\<lparr>word_translation_result :=
                  Some (word, if truthy english_translation then the english_translation
                              else ''[Translation Failed]'')\<rparr>,
              log1, None)))"

definition word_click_example ::
  "env \<Rightarrow> string \<Rightarrow> session_state \<times> call list \<Rightarrow> session_state \<times> call list" where
  "word_click_example e word sl =
     (case sl of (s, log) \<Rightarrow>
        (case get_german_example_sentence_ollama e word log of
           (german_example, log1) \<Rightarrow>
             (s\<lparr>german_example_sentence_result := german_example\<rparr>, log1)))"

definition word_click_translate_example ::
  "env \<Rightarrow> session_state \<times> call list \<Rightarrow> session_state \<times> call list \<times> error option" where
  "word_click_translate_example e sl =
     (case sl of (s, log) \<Rightarrow>
        if truthy (german_example_sentence_result s)
        then (case translate_text e (the (german_example_sentence_result s)) ''de'' ''en'' log of
                (Inl x, log1) \<Rightarrow> (s, log1, Some x)
              | (Inr english_example_translation, log1) \<Rightarrow>
                  (s\<lparr>english_example_translation_result :=
                       Some (if truthy english_example_translation
                             then the english_example_translation
                             else ''[Example Translation Failed]'')\<rparr>,
                   log1, None))
        else (s\<lparr>english_example_translation_result := None\<rparr>, log, None))"

definition handle_word_click ::
  "env \<Rightarrow> string \<Rightarrow> session_state \<times> call list
     \<Rightarrow> session_state \<times> call list \<times> error option" where
  "handle_word_click e word sl =
     (case sl of (s, log) \<Rightarrow>
        (case word_click_translate e word (word_click_reset word s, log) of
           (s1, log1, Some x) \<Rightarrow> (s1, log1, Some x)
         | (s1, log1, None) \<Rightarrow>
             word_click_translate_example e (word_click_example e word (s1, log1))))"

text \<open>
  The states of the session at the moments of \<open>handle_word_click\<close> at which a request is
  issued, and the state at its end; when a translation raises, the state at the end is
  the state in which the exception leaves the callback.
\<close>

definition word_click_states ::
  "env \<Rightarrow> string \<Rightarrow> session_state \<times> call list \<Rightarrow> (session_state \<times> call list) list" where
  "word_click_states e word sl =
     (case sl of (s, log) \<Rightarrow>
        (case word_click_translate e word (word_click_reset word s, log) of
           (s1, log1, Some x) \<Rightarrow> [(word_click_reset word s, log), (s1, log1)]
         | (s1, log1, None) \<Rightarrow>
             (case word_click_translate_example e (word_click_example e word (s1, log1)) of
                (s3, log3, raised) \<Rightarrow>
                  [(word_click_reset word s, log), (s1, log1),
                   word_click_example e word (s1, log1), (s3, log3)])))"

text \<open>The fields of the session state that hold results.\<close>

definition results_of ::
  "session_state \<Rightarrow>
     (string \<times> string) option \<times> string option \<times> string option \<times> string option
       \<times> string option \<times> bytes option" where
  "results_of s =
     (word_translation_result s, sentence_translation_result s, active_translation_word s,
      german_example_sentence_result s, english_example_translation_result s,
      tts_audio_bytes s)"

definition handle_tts_click ::
  "tts_config \<Rightarrow> env \<Rightarrow> string \<Rightarrow> string \<Rightarrow> session_state \<times> call list
     \<Rightarrow> session_state \<times> call list" where
  "handle_tts_click cfg e text_to_speak lang sl =
     (case sl of (s, log) \<Rightarrow>
        if text_to_speak = [] then (s, log)
        else
          (let s1 = s\<lparr>tts_audio_bytes := None, tts_audio_format := None\<rparr>
           in case generate_speech_audio cfg e text_to_speak lang log of
                ((audio_bytes, audio_format, engine_name), log1) \<Rightarrow>
                  if truthy audio_bytes \<and> truthy audio_format
                  then (s1\<lparr>tts_audio_bytes := audio_bytes, tts_audio_format := audio_format\<rparr>,
                        log1)
                  else (s1, log1)))"

text \<open>The handler of the button \<open>full_translate_btn\<close>.\<close>

definition translate_full_sentence ::
  "env \<Rightarrow> session_state \<times> call list \<Rightarrow> session_state \<times> call list \<times> error option" where
  "translate_full_sentence e sl =
     (case sl of (s, log) \<Rightarrow>
        (let s1 = s\<lparr>active_translation_word := None,
                     word_translation_result := None,
                     german_example_sentence_result := None,
                     english_example_translation_result := None,
                     tts_audio_bytes := None\<rparr>
         in case translate_text e (input_sentence s) ''de'' ''en'' log of
              (Inl x, log1) \<Rightarrow> (s1, log1, Some x)
            | (Inr full_translation, log1) \<Rightarrow>
                (s1\<lparr>sentence_translation_result :=
                      Some (if truthy full_translation then the full_translation
                            else ''[Full Translation Failed]'')\<rparr>,
                 log1, None)))"

subsection \<open>What the page shows\<close>

text \<open>
  The conditions of the rendering code: the audio player, and the translation of the
  active word in the result area.
\<close>

definition shows_audio :: "session_state \<Rightarrow> bool" where
  "shows_audio s = (truthy (tts_audio_bytes s) \<and> truthy (tts_audio_format s))"

definition shown_word_translation :: "session_state \<Rightarrow> (string \<times> string) option" where
  "shown_word_translation s =
     (if truthy (active_translation_word s)
      then (case word_translation_result s of
              None \<Rightarrow> None
            | Some (german_word, english_translation) \<Rightarrow>
                if german_word = the (active_translation_word s)
                   \<and> english_translation \<noteq> []
                   \<and> \<not> str_in ''[Translation Failed]'' english_translation
                then Some (the (active_translation_word s), english_translation)
                else None)
      else None)"

section \<open>Fixtures\<close>

text \<open>
  Services with fixed answers, for the concrete runs: \<open>fixed_env\<close> answers every call the
  same way; \<open>first_then_env\<close> answers the first HTTP request with one outcome and every
  later one with another.
\<close>

definition fixed_env :: "http_outcome \<Rightarrow> chat_outcome \<Rightarrow> bytes option \<Rightarrow> bytes option \<Rightarrow> env" where
  "fixed_env h c a b =
     \<lparr>http_get = (\<lambda>log url ps. h), ollama_chat = (\<lambda>log model word. c),
      hf_synth = (\<lambda>log text. a), gtts_synth = (\<lambda>log text lang. b)\<rparr>"

definition first_then_env :: "http_outcome \<Rightarrow> http_outcome \<Rightarrow> chat_outcome \<Rightarrow> env" where
  "first_then_env h1 h2 c =
     \<lparr>http_get = (\<lambda>log url ps. if log = [] then h1 else h2),
      ollama_chat = (\<lambda>log model word. c),
      hf_synth = (\<lambda>log text. None), gtts_synth = (\<lambda>log text lang. None)\<rparr>"

definition blank_state :: session_state where
  "blank_state =
     \<lparr>input_sentence = [], word_translation_result = None,
      sentence_translation_result = None, active_translation_word = None,
      german_example_sentence_result = None, english_example_translation_result = None,
      show_word_buttons = False, tts_audio_bytes = None, tts_audio_format = None,
      sentence_input_widget = Some []\<rparr>"

definition hf_cfg :: tts_config where
  "hf_cfg =
     \<lparr>TTS_ENGINE = ''huggingface'', hf_libraries_installed = True, hf_loaded = True,
      gtts_installed = True\<rparr>"

definition gtts_cfg :: tts_config where
  "gtts_cfg = hf_cfg\<lparr>TTS_ENGINE := ''gtts''\<rparr>"

definition stale_state :: session_state where
  "stale_state =
     blank_state\<lparr>input_sentence := ''Die Katze und der Hund'',
       word_translation_result := Some (''Katze'', ''cat''),
       sentence_translation_result := Some ''The cat and the dog'',
       active_translation_word := Some ''Katze'',
       german_example_sentence_result := Some ''Die Katze ist da.'',
       english_example_translation_result := Some ''The cat is here.'',
       show_word_buttons := True,
       tts_audio_bytes := Some ''RIFF'',
       tts_audio_format := Some ''audio/wav'',
       sentence_input_widget := Some ''Die Katze und der Hund''\<rparr>"

section \<open>Auxiliary functions of the proofs\<close>

text \<open>
  The first of the matches that \<open>ends\<close> lists, which is the match the engine returns.
\<close>

definition first_end :: "nat list \<Rightarrow> nat option" where
  "first_end ns = (case ns of [] \<Rightarrow> None | n # _ \<Rightarrow> Some n)"

text \<open>
  \<open>cut_at Q s\<close> is \<open>s\<close> up to its first suffix that satisfies \<open>Q\<close>. \<open>trailing_quotes\<close>
  holds of a text that begins with a quote character and consists of quote characters
  followed by white space: the texts the second alternative of the first pattern matches
  at the end of the string. \<open>no_trailing_space\<close> holds of a text that does not end in
  white space.
\<close>

definition trailing_quotes :: "string \<Rightarrow> bool" where
  "trailing_quotes t =
     (case t of [] \<Rightarrow> False
      | c # _ \<Rightarrow> quote_char c \<and> list_all is_space (dropWhile quote_char t))"

fun cut_at :: "('a list \<Rightarrow> bool) \<Rightarrow> 'a list \<Rightarrow> 'a list" where
  "cut_at Q [] = []"
| "cut_at Q (c # cs) = (if Q (c # cs) then [] else c # cut_at Q cs)"

definition no_trailing_space :: "string \<Rightarrow> bool" where
  "no_trailing_space t = (case rev t of [] \<Rightarrow> True | c # _ \<Rightarrow> \<not> is_space c)"

text \<open>
  \<open>after_colon t\<close> is the length of white space, a colon and white space at the start of
  \<open>t\<close>, and \<open>label_end s\<close> the length of a label "Beispiel" or "Example", in any case, with
  such a colon behind it at the start of \<open>s\<close>.
\<close>

definition after_colon :: "string \<Rightarrow> nat option" where
  "after_colon t =
     (case dropWhile is_space t of
        [] \<Rightarrow> None
      | c # u \<Rightarrow>
          if c = CHR '':''
          then Some (length (takeWhile is_space t) + 1 + length (takeWhile is_space u))
          else None)"

definition label_end :: "string \<Rightarrow> nat option" where
  "label_end s =
     (if prefix (py_lower ''Beispiel'') (py_lower s)
      then map_option ((+) 8) (after_colon (drop 8 s))
      else if prefix (py_lower ''Example'') (py_lower s)
      then map_option ((+) 7) (after_colon (drop 7 s))
      else None)"

text \<open>
  \<open>firsts f seen xs\<close> keeps the elements of \<open>xs\<close> whose image under \<open>f\<close> is neither in
  \<open>seen\<close> nor the image of an earlier element; the loop of the word buttons computes it,
  with the keys of the dictionary as \<open>seen\<close>.
\<close>

fun firsts :: "('a \<Rightarrow> 'b) \<Rightarrow> 'b set \<Rightarrow> 'a list \<Rightarrow> 'a list" where
  "firsts f seen [] = []"
| "firsts f seen (x # xs) =
     (if f x \<in> seen then firsts f seen xs else x # firsts f (insert (f x) seen) xs)"

section \<open>Properties of the matcher\<close>

lemma map_add_0 [simp]: "map ((+) (0::nat)) ns = ns"
  by (induction ns) simp_all

lemma map_add_Suc: "map ((+) (Suc n)) ns = map Suc (map ((+) n) ns)"
  by simp

lemma prev_at_0 [simp]: "prev_at prev cs 0 = prev"
  by (simp add: prev_at_def)

lemma prev_at_Suc [simp]: "prev_at prev (c # cs) (Suc n) = prev_at (Some c) cs n"
  by (simp add: prev_at_def split: list.splits)

lemma then_ends_Nil [simp]: "then_ends [] r prev cs = []"
  by (simp add: then_ends_def)

lemma then_ends_Cons:
  "then_ends (n # ns) r prev cs =
     map ((+) n) (ends r (prev_at prev cs n) (drop n cs)) @ then_ends ns r prev cs"
  by (simp add: then_ends_def)

lemma then_ends_append:
  "then_ends (ms @ ns) r prev cs = then_ends ms r prev cs @ then_ends ns r prev cs"
  by (simp add: then_ends_def)

lemma then_ends_map_Suc:
  "then_ends (map Suc ns) r prev (c # cs) = map Suc (then_ends ns r (Some c) cs)"
  by (induction ns) (simp_all add: then_ends_Cons)

lemma ends_Star_Cls_Nil: "ends (Star (Cls p)) prev [] = [0]"
  by (rule ends_Star_Nil)

lemma ends_Star_Cls_Cons:
  "ends (Star (Cls p)) prev (c # cs) =
     (if p c then map Suc (ends (Star (Cls p)) (Some c) cs) else []) @ [0]"
  by (subst ends_Star_Cons) simp

text \<open>A greedy run of a class followed by the rest of the pattern.\<close>

lemma ends_Star_then_Nil: "ends (Seq (Star (Cls p)) r) prev [] = ends r prev []"
  by (simp add: ends_Seq ends_Star_Nil then_ends_Cons)

lemma ends_Star_then_Cons:
  "ends (Seq (Star (Cls p)) r) prev (c # cs) =
     (if p c then map Suc (ends (Seq (Star (Cls p)) r) (Some c) cs) else [])
       @ ends r prev (c # cs)"
proof -
  have "ends (Seq (Star (Cls p)) r) prev (c # cs) =
        then_ends ((if p c then map Suc (ends (Star (Cls p)) (Some c) cs) else []) @ [0])
          r prev (c # cs)"
    by (simp only: ends_Seq ends_Star_Cls_Cons)
  also have "\<dots> = (if p c then map Suc (then_ends (ends (Star (Cls p)) (Some c) cs) r (Some c) cs)
                    else []) @ ends r prev (c # cs)"
    by (simp add: then_ends_append then_ends_map_Suc then_ends_Cons)
  finally show ?thesis by (simp add: ends_Seq)
qed

lemma ends_Cls_then:
  "ends (Seq (Cls p) r) prev cs =
     (case cs of [] \<Rightarrow> [] | c # cs' \<Rightarrow> if p c then map Suc (ends r (Some c) cs') else [])"
  by (cases cs) (simp_all add: ends_Seq then_ends_Cons prev_at_def)

lemma prev_at_Nil [simp]: "prev_at prev [] n = prev"
  by (simp add: prev_at_def)

lemma prev_at_add: "prev_at (prev_at prev cs n) (drop n cs) m = prev_at prev cs (n + m)"
proof (induction cs arbitrary: n prev)
  case Nil
  show ?case by simp
next
  case (Cons c cs)
  show ?case
  proof (cases n)
    case 0
    then show ?thesis by simp
  next
    case (Suc n')
    with Cons show ?thesis by simp
  qed
qed

lemma then_ends_shift:
  "then_ends (map ((+) n) ms) r prev cs = map ((+) n) (then_ends ms r (prev_at prev cs n) (drop n cs))"
  by (induction ms) (simp_all add: then_ends_Cons prev_at_add add.commute add.assoc)

lemma then_ends_assoc:
  "then_ends (then_ends ns r2 prev cs) r3 prev cs = then_ends ns (Seq r2 r3) prev cs"
  by (induction ns) (simp_all add: then_ends_Cons then_ends_append then_ends_shift ends_Seq)

lemma ends_Seq_assoc:
  "ends (Seq (Seq r1 r2) r3) prev cs = ends (Seq r1 (Seq r2 r3)) prev cs"
  by (simp only: ends_Seq then_ends_assoc)

lemma ends_Plus_then:
  "ends (Seq (Plus (Cls p)) r) prev cs =
     (case cs of [] \<Rightarrow> []
      | c # cs' \<Rightarrow> if p c then map Suc (ends (Seq (Star (Cls p)) r) (Some c) cs') else [])"
  unfolding Plus_def ends_Seq_assoc by (rule ends_Cls_then)

section \<open>Properties of the iteration\<close>

lemma scan_None: "search r adv prev cs = None \<Longrightarrow> scan r adv prev cs = ([], cs)"
  by (subst scan.simps) simp

lemma scan_Some:
  "search r adv prev cs = Some (k, n) \<Longrightarrow>
   scan r (n = 0) (prev_at prev cs (k + n)) (drop (k + n) cs) = (ps, rest) \<Longrightarrow>
   scan r adv prev cs = ((take k cs, take n (drop k cs)) # ps, rest)"
  by (subst scan.simps) simp

lemma scan_concat:
  "scan r adv prev cs = (ps, rest) \<Longrightarrow> concat (map (\<lambda>(gap, m). gap @ m) ps) @ rest = cs"
proof (induction r adv prev cs arbitrary: ps rest rule: scan.induct)
  case (1 r adv prev cs)
  show ?case
  proof (cases "search r adv prev cs")
    case None
    with "1.prems" show ?thesis by (simp add: scan.simps)
  next
    case (Some kn)
    obtain k n where kn: "kn = (k, n)" by (cases kn)
    obtain ps' rest' where
      sc: "scan r (n = 0) (prev_at prev cs (k + n)) (drop (k + n) cs) = (ps', rest')"
      by (cases "scan r (n = 0) (prev_at prev cs (k + n)) (drop (k + n) cs)")
    from "1.prems" Some kn sc have ps: "ps = (take k cs, take n (drop k cs)) # ps'"
      and rest: "rest = rest'"
      by (simp_all add: scan.simps)
    from "1.IH" [OF Some [unfolded kn] refl sc]
    have ih: "concat (map (\<lambda>(gap, m). gap @ m) ps') @ rest' = drop (k + n) cs" .
    have "take k cs @ take n (drop k cs) @ drop (k + n) cs = cs"
      by (metis append_take_drop_id drop_drop add.commute)
    with ih ps rest show ?thesis by simp
  qed
qed

lemma re_split_concat: "concat (re_split r s) = s"
proof -
  obtain ps rest where sc: "scan r False None s = (ps, rest)"
    by (cases "scan r False None s")
  have "concat (concat (map (\<lambda>(gap, m). [gap, m]) ps)) = concat (map (\<lambda>(gap, m). gap @ m) ps)"
    by (induction ps) auto
  with scan_concat [OF sc] sc show ?thesis by (simp add: re_split_def)
qed

lemma concat_filter_nonempty: "concat (filter (\<lambda>p. p \<noteq> []) xs) = concat xs"
  by (induction xs) auto

section \<open>The pattern of the tokenizer\<close>

lemma ends_run_Bnd:
  "at_word w prev \<Longrightarrow> ends (Seq (Star (Cls w)) (Bnd w)) prev cs = [length (takeWhile w cs)]"
proof (induction cs arbitrary: prev)
  case Nil
  then show ?case by (simp add: ends_Star_then_Nil starts_word_def)
next
  case (Cons c cs)
  have "at_word w (Some c) = w c" by (simp add: at_word_def)
  with Cons show ?case
    by (simp add: ends_Star_then_Cons starts_word_def)
qed

lemma ends_word_rx:
  "ends (word_rx w) prev cs =
     (if \<not> at_word w prev \<and> starts_word w cs then [length (takeWhile w cs)] else [])"
proof (cases cs)
  case Nil
  then show ?thesis
    by (simp add: word_rx_def ends_Seq [of "Bnd w"] then_ends_Cons ends_Plus_then starts_word_def)
next
  case (Cons c cs')
  have "at_word w (Some c) = w c" by (simp add: at_word_def)
  with Cons show ?thesis
    by (simp add: word_rx_def ends_Seq [of "Bnd w"] then_ends_Cons ends_Plus_then
        starts_word_def ends_run_Bnd)
qed

lemma match_at_word_rx:
  "match_at (word_rx w) adv prev cs =
     (if \<not> at_word w prev \<and> starts_word w cs then Some (length (takeWhile w cs)) else None)"
  by (cases cs) (auto simp: match_at_def ends_word_rx starts_word_def)

lemma search_word_rx:
  "\<not> (at_word w prev \<and> starts_word w cs) \<Longrightarrow>
   search (word_rx w) adv prev cs =
     (if dropWhile (\<lambda>c. \<not> w c) cs = [] then None
      else Some (length (takeWhile (\<lambda>c. \<not> w c) cs),
                 length (takeWhile w (dropWhile (\<lambda>c. \<not> w c) cs))))"
proof (induction cs arbitrary: adv prev)
  case Nil
  then show ?case by (simp add: match_at_word_rx starts_word_def)
next
  case (Cons c cs)
  show ?case
  proof (cases "w c")
    case True
    with Cons.prems show ?thesis by (simp add: match_at_word_rx starts_word_def)
  next
    case False
    then have "\<not> (at_word w (Some c) \<and> starts_word w cs)" by (simp add: at_word_def)
    from Cons.IH [OF this] False show ?thesis
      by (simp add: match_at_word_rx starts_word_def)
  qed
qed

lemma drop_takeWhile_length: "drop (length (takeWhile P cs)) cs = dropWhile P cs"
  by (simp add: dropWhile_eq_drop)

lemma take_takeWhile_length: "take (length (takeWhile P cs)) cs = takeWhile P cs"
  by (rule takeWhile_eq_take [symmetric])

lemma drop_runs:
  "drop (length (takeWhile P cs) + length (takeWhile Q (dropWhile P cs))) cs
     = dropWhile Q (dropWhile P cs)"
proof -
  have "drop (length (takeWhile P cs) + length (takeWhile Q (dropWhile P cs))) cs
        = drop (length (takeWhile Q (dropWhile P cs))) (drop (length (takeWhile P cs)) cs)"
    by (simp add: add.commute)
  then show ?thesis by (simp only: drop_takeWhile_length)
qed

lemma take_runs:
  "take (length (takeWhile Q (dropWhile P cs))) (drop (length (takeWhile P cs)) cs)
     = takeWhile Q (dropWhile P cs)"
  by (simp only: drop_takeWhile_length take_takeWhile_length)

lemma not_starts_dropWhile: "\<not> starts_word w (dropWhile w cs)"
proof (cases "dropWhile w cs")
  case Nil
  show ?thesis by (simp only: starts_word_def Nil list.case simp_thms)
next
  case (Cons y ys)
  with hd_dropWhile [of w cs] have "\<not> w y" by simp
  then show ?thesis by (simp only: starts_word_def Cons list.case simp_thms)
qed

lemma takeWhile_after_dropWhile_not:
  "dropWhile (\<lambda>c. \<not> w c) cs \<noteq> [] \<Longrightarrow> takeWhile w (dropWhile (\<lambda>c. \<not> w c) cs) \<noteq> []"
proof (cases "dropWhile (\<lambda>c. \<not> w c) cs")
  case Nil
  moreover assume "dropWhile (\<lambda>c. \<not> w c) cs \<noteq> []"
  ultimately show ?thesis by simp
next
  case (Cons y ys)
  with hd_dropWhile [of "\<lambda>c. \<not> w c" cs] have "w y" by simp
  then show ?thesis by (simp only: Cons takeWhile.simps if_True) simp
qed

lemma no_word_takeWhile_not: "\<not> list_ex w (takeWhile (\<lambda>c. \<not> w c) cs)"
  by (auto simp: list_ex_iff dest: set_takeWhileD)

lemma all_word_takeWhile: "list_all w (takeWhile w cs)"
  by (auto simp: list_all_iff dest: set_takeWhileD)

lemma no_word_if_dropWhile_Nil: "dropWhile (\<lambda>c. \<not> w c) cs = [] \<Longrightarrow> \<not> list_ex w cs"
  by (auto simp: list_ex_iff dropWhile_eq_Nil_conv)

lemma scan_word_rx:
  "\<not> (at_word w prev \<and> starts_word w cs) \<Longrightarrow> scan (word_rx w) adv prev cs = (ps, rest) \<Longrightarrow>
   list_all (\<lambda>(gap, m). \<not> list_ex w gap \<and> m \<noteq> [] \<and> list_all w m) ps \<and> \<not> list_ex w rest"
proof (induction "word_rx w" adv prev cs arbitrary: ps rest rule: scan.induct)
  case (1 adv prev cs)
  let ?g = "takeWhile (\<lambda>c. \<not> w c) cs"
  let ?r = "dropWhile (\<lambda>c. \<not> w c) cs"
  show ?case
  proof (cases "?r = []")
    case True
    with "1.prems"(1) have "search (word_rx w) adv prev cs = None"
      by (simp add: search_word_rx)
    from scan_None [OF this] "1.prems"(2) have "ps = []" "rest = cs"
      by simp_all
    with no_word_if_dropWhile_Nil [OF True] show ?thesis by simp
  next
    case False
    let ?k = "length ?g" and ?n = "length (takeWhile w ?r)"
    from False "1.prems"(1) have s: "search (word_rx w) adv prev cs = Some (?k, ?n)"
      by (simp add: search_word_rx)
    obtain ps' rest' where
      sc: "scan (word_rx w) (?n = 0) (prev_at prev cs (?k + ?n)) (drop (?k + ?n) cs) = (ps', rest')"
      by (cases "scan (word_rx w) (?n = 0) (prev_at prev cs (?k + ?n)) (drop (?k + ?n) cs)")
    have inv: "\<not> (at_word w (prev_at prev cs (?k + ?n)) \<and> starts_word w (drop (?k + ?n) cs))"
      by (simp only: drop_runs not_starts_dropWhile simp_thms)
    from "1.hyps" [OF s refl inv sc]
    have ih: "list_all (\<lambda>(gap, m). \<not> list_ex w gap \<and> m \<noteq> [] \<and> list_all w m) ps'
              \<and> \<not> list_ex w rest'" .
    from scan_Some [OF s sc] "1.prems"(2)
    have ps: "ps = (take ?k cs, take ?n (drop ?k cs)) # ps'" and rest: "rest = rest'"
      by simp_all
    have g: "take ?k cs = ?g" by (rule take_takeWhile_length)
    have m: "take ?n (drop ?k cs) = takeWhile w ?r" by (rule take_runs)
    show ?thesis
      unfolding ps rest g m
      using ih no_word_takeWhile_not [of w cs] takeWhile_after_dropWhile_not [OF False]
        all_word_takeWhile [of w ?r]
      by simp
  qed
qed

lemma match_at_Cls:
  "match_at (Cls w) adv prev cs = (if starts_word w cs then Some 1 else None)"
  by (cases cs) (simp_all add: match_at_def starts_word_def)

lemma search_Cls: "(search (Cls w) adv prev cs = None) = (\<not> list_ex w cs)"
proof (induction cs arbitrary: adv prev)
  case Nil
  show ?case by (simp add: match_at_Cls starts_word_def)
next
  case (Cons c cs)
  from Cons [of False "Some c"] show ?case
    by (cases "search (Cls w) False (Some c) cs")
       (auto simp: match_at_Cls starts_word_def)
qed

lemma list_ex_run: "m \<noteq> [] \<Longrightarrow> list_all w m \<Longrightarrow> list_ex w m"
  by (cases m) simp_all

lemma filter_pieces:
  "list_all (\<lambda>(gap, m). \<not> list_ex w gap \<and> m \<noteq> [] \<and> list_all w m) ps \<Longrightarrow>
   \<not> list_ex w rest \<Longrightarrow>
   filter (list_ex w) (filter (\<lambda>p. p \<noteq> []) (concat (map (\<lambda>(gap, m). [gap, m]) ps) @ [rest]))
     = map snd ps"
  by (induction ps) (auto simp: list_ex_run simp del: filter_filter)

lemma words_of_split:
  "filter (list_ex w) (filter (\<lambda>p. p \<noteq> []) (re_split (word_rx w) s)) = re_findall (word_rx w) s"
proof -
  obtain ps rest where sc: "scan (word_rx w) False None s = (ps, rest)"
    by (cases "scan (word_rx w) False None s")
  have "\<not> (at_word w None \<and> starts_word w s)" by (simp add: at_word_def)
  from scan_word_rx [OF this sc]
  have ps: "list_all (\<lambda>(gap, m). \<not> list_ex w gap \<and> m \<noteq> [] \<and> list_all w m) ps"
    and rest: "\<not> list_ex w rest"
    by simp_all
  show ?thesis
    by (simp only: re_split_def re_findall_def sc fst_conv snd_conv filter_pieces [OF ps rest])
qed

lemma words_with_original_case_eq: "words_with_original_case w parts = filter (list_ex w) parts"
  by (simp only: words_with_original_case_def re_search_def search_Cls not_not)

section \<open>The loop of the word buttons\<close>

lemma display_words_loop_firsts:
  "display_words_loop lower ws tracker display = display @ firsts lower (dom tracker) ws"
  by (induction ws arbitrary: tracker display) (auto simp: Let_def domIff)

lemma firsts_subseq: "subseq (firsts f seen xs) xs"
  by (induction xs arbitrary: seen) auto

lemma firsts_image: "f ` set (firsts f seen xs) = f ` set xs - seen"
  by (induction xs arbitrary: seen) auto

lemma firsts_distinct: "distinct (map f (firsts f seen xs))"
proof (induction xs arbitrary: seen)
  case Nil
  show ?case by simp
next
  case (Cons x xs)
  have "f x \<notin> f ` set (firsts f (insert (f x) seen) xs)"
    by (simp add: firsts_image)
  with Cons show ?case by simp
qed

lemma firsts_not_seen: "x \<in> set (firsts f seen xs) \<Longrightarrow> f x \<notin> seen"
  using firsts_image [of f seen xs] by blast

lemma firsts_find:
  "x \<in> set (firsts f seen xs) \<Longrightarrow> find (\<lambda>y. f y = f x) xs = Some x"
proof (induction xs arbitrary: seen)
  case Nil
  then show ?case by simp
next
  case (Cons a xs)
  show ?case
  proof (cases "f a = f x")
    case True
    show ?thesis
    proof (cases "f a \<in> seen")
      case True
      with Cons.prems have "x \<in> set (firsts f seen xs)" by simp
      from firsts_not_seen [OF this] True \<open>f a = f x\<close> show ?thesis by simp
    next
      case False
      with Cons.prems have "x = a \<or> x \<in> set (firsts f (insert (f a) seen) xs)" by simp
      then show ?thesis
      proof
        assume "x = a"
        then show ?thesis by simp
      next
        assume "x \<in> set (firsts f (insert (f a) seen) xs)"
        from firsts_not_seen [OF this] \<open>f a = f x\<close> show ?thesis by simp
      qed
    qed
  next
    case False
    with Cons show ?thesis by (auto split: if_splits)
  qed
qed

section \<open>Properties of the string functions\<close>

lemma split_head_prefix: "prefix (split_head sep s) s"
  by (induction s) auto

lemma not_in_split_head: "sep \<noteq> [] \<Longrightarrow> \<not> str_in sep (split_head sep s)"
proof (induction s)
  case Nil
  then show ?case by simp
next
  case (Cons c cs)
  show ?case
  proof (cases "prefix sep (c # cs)")
    case True
    with Cons.prems show ?thesis by simp
  next
    case False
    have "\<not> prefix sep (c # split_head sep cs)"
    proof
      assume "prefix sep (c # split_head sep cs)"
      moreover have "prefix (c # split_head sep cs) (c # cs)"
        by (simp add: split_head_prefix)
      ultimately have "prefix sep (c # cs)" by (rule prefix_order.trans)
      with False show False by simp
    qed
    with False Cons show ?thesis by simp
  qed
qed

lemma str_in_prefix: "str_in sub xs \<Longrightarrow> prefix xs ys \<Longrightarrow> str_in sub ys"
proof (induction xs arbitrary: ys)
  case Nil
  then show ?case by (cases ys) simp_all
next
  case (Cons x xs)
  from Cons.prems(2) obtain zs where ys: "ys = x # zs" and p: "prefix xs zs"
    by (cases ys) simp_all
  from Cons.prems(1) have "prefix sub (x # xs) \<or> str_in sub xs" by simp
  then show ?case
  proof
    assume "prefix sub (x # xs)"
    from this Cons.prems(2) have "prefix sub ys" by (rule prefix_order.trans)
    with ys show ?thesis by simp
  next
    assume "str_in sub xs"
    from Cons.IH [OF this p] ys show ?thesis by simp
  qed
qed

section \<open>Properties of the speech functions\<close>

lemma primary_speech_log:
  "\<exists>calls. snd (primary_speech cfg e text lang log) = log @ calls"
  by (simp add: primary_speech_def generate_speech_audio_hf_def generate_speech_audio_gtts_def)

lemma fst_no_speech [simp]: "fst no_speech = None"
  by (simp add: no_speech_def)

lemma tag_fallback_no_speech [simp]: "tag_fallback no_speech = no_speech"
  by (simp add: tag_fallback_def no_speech_def truthy_def)

lemma gtts_absent:
  "(fst (generate_speech_audio_gtts cfg e text lang log) = no_speech)
     = (\<not> gtts_installed cfg \<or> text = [] \<or> gtts_synth e log text lang = None)"
  by (auto simp: generate_speech_audio_gtts_def no_speech_def split: option.splits)

lemma gtts_present:
  "gtts_installed cfg \<Longrightarrow> text \<noteq> [] \<Longrightarrow> gtts_synth e log text lang = Some b \<Longrightarrow>
   generate_speech_audio_gtts cfg e text lang log
     = ((Some b, Some ''audio/mp3'', Some ''gTTS''), log @ [Gtts_synth text lang])"
  by (simp add: generate_speech_audio_gtts_def)

lemma primary_absent_iff:
  "(fst (fst (primary_speech cfg e text lang log)) = None)
     = (fst (primary_speech cfg e text lang log) = no_speech)"
  by (auto simp: primary_speech_def generate_speech_audio_hf_def generate_speech_audio_gtts_def
      no_speech_def split: option.splits)

text \<open>The second attempt, on gTTS, after the calls \<open>log1\<close>.\<close>

lemma gtts_fallback:
  "gtts_installed cfg \<Longrightarrow> text \<noteq> [] \<Longrightarrow>
   (case generate_speech_audio_gtts cfg e text lang log1 of
      (r2, log2) \<Rightarrow> (tag_fallback r2, log2))
   = (case gtts_synth e log1 text lang of
        None \<Rightarrow> no_speech
      | Some b \<Rightarrow> (Some b, Some ''audio/mp3'', Some ''gTTS (Fallback)''),
      log1 @ [Gtts_synth text lang])"
  by (simp add: generate_speech_audio_gtts_def tag_fallback_def truthy_def no_speech_def
      split: option.splits)

lemma speech_empty_text: "generate_speech_audio cfg e [] lang log = (no_speech, log)"
  by (simp add: generate_speech_audio_def primary_speech_def generate_speech_audio_hf_def
      generate_speech_audio_gtts_def)

lemma speech_hf_first:
  assumes "TTS_ENGINE cfg = ''huggingface''" "hf_libraries_installed cfg" "hf_loaded cfg"
    and "text \<noteq> []" and "hf_synth e log text = Some b"
  shows "generate_speech_audio cfg e text lang log
           = ((Some b, Some ''audio/wav'', Some ''Hugging Face''), log @ [Hf_synth text])"
  using assms
  by (simp add: generate_speech_audio_def primary_speech_def generate_speech_audio_hf_def)

lemma speech_gtts_first:
  assumes "TTS_ENGINE cfg = ''gtts''" "gtts_installed cfg"
    and "text \<noteq> []" and "gtts_synth e log text lang = Some b"
  shows "generate_speech_audio cfg e text lang log
           = ((Some b, Some ''audio/mp3'', Some ''gTTS''), log @ [Gtts_synth text lang])"
  using assms
  by (simp add: generate_speech_audio_def primary_speech_def generate_speech_audio_gtts_def)

lemma speech_hf_failed:
  assumes "TTS_ENGINE cfg = ''huggingface''" "hf_libraries_installed cfg" "hf_loaded cfg"
    and "text \<noteq> []" and "hf_synth e log text = None"
  shows "gtts_installed cfg \<Longrightarrow>
         generate_speech_audio cfg e text lang log
           = (case gtts_synth e (log @ [Hf_synth text]) text lang of
                None \<Rightarrow> no_speech
              | Some b \<Rightarrow> (Some b, Some ''audio/mp3'', Some ''gTTS (Fallback)''),
              log @ [Hf_synth text, Gtts_synth text lang])"
    and "\<not> gtts_installed cfg \<Longrightarrow>
         generate_speech_audio cfg e text lang log = (no_speech, log @ [Hf_synth text])"
  using assms gtts_fallback [of cfg "text" e lang "log @ [Hf_synth text]"]
  by (simp_all add: generate_speech_audio_def primary_speech_def generate_speech_audio_hf_def)

lemma speech_gtts_failed:
  assumes "TTS_ENGINE cfg = ''gtts''" "gtts_installed cfg"
    and "text \<noteq> []" and "gtts_synth e log text lang = None"
  shows "generate_speech_audio cfg e text lang log
           = (case gtts_synth e (log @ [Gtts_synth text lang]) text lang of
                None \<Rightarrow> no_speech
              | Some b \<Rightarrow> (Some b, Some ''audio/mp3'', Some ''gTTS (Fallback)''),
              log @ [Gtts_synth text lang, Gtts_synth text lang])"
  using assms gtts_fallback [of cfg "text" e lang "log @ [Gtts_synth text lang]"]
  by (simp add: generate_speech_audio_def primary_speech_def generate_speech_audio_gtts_def)

lemma speech_no_primary:
  assumes "\<not> (TTS_ENGINE cfg = ''huggingface'' \<and> hf_libraries_installed cfg \<and> hf_loaded cfg)"
  shows "TTS_ENGINE cfg \<noteq> ''gtts'' \<Longrightarrow> gtts_installed cfg \<Longrightarrow> text \<noteq> [] \<Longrightarrow>
         generate_speech_audio cfg e text lang log
           = (case gtts_synth e log text lang of
                None \<Rightarrow> no_speech
              | Some b \<Rightarrow> (Some b, Some ''audio/mp3'', Some ''gTTS (Fallback)''),
              log @ [Gtts_synth text lang])"
    and "\<not> gtts_installed cfg \<Longrightarrow> generate_speech_audio cfg e text lang log = (no_speech, log)"
  using assms gtts_fallback [of cfg "text" e lang log]
  by (auto simp: generate_speech_audio_def primary_speech_def)

section \<open>Properties of the steps of a word click\<close>

lemma word_click_translate_fields:
  assumes "word_click_translate e word (s, log) = (s', log', raised)"
  shows "active_translation_word s' = active_translation_word s"
    and "sentence_translation_result s' = sentence_translation_result s"
    and "tts_audio_bytes s' = tts_audio_bytes s"
    and "raised = None \<Longrightarrow> \<exists>t. word_translation_result s' = Some (word, t)"
    and "raised = Some x \<Longrightarrow> s' = s"
    and "show_word_buttons s' = show_word_buttons s"
  using assms by (auto simp: word_click_translate_def split: prod.splits sum.splits)

lemma word_click_example_fields:
  assumes "word_click_example e word (s, log) = (s', log')"
  shows "active_translation_word s' = active_translation_word s"
    and "sentence_translation_result s' = sentence_translation_result s"
    and "tts_audio_bytes s' = tts_audio_bytes s"
    and "word_translation_result s' = word_translation_result s"
    and "show_word_buttons s' = show_word_buttons s"
  using assms by (auto simp: word_click_example_def split: prod.splits)

lemma word_click_translate_example_fields:
  assumes "word_click_translate_example e (s, log) = (s', log', raised)"
  shows "active_translation_word s' = active_translation_word s"
    and "sentence_translation_result s' = sentence_translation_result s"
    and "tts_audio_bytes s' = tts_audio_bytes s"
    and "word_translation_result s' = word_translation_result s"
    and "german_example_sentence_result s' = german_example_sentence_result s"
    and "raised = Some x \<Longrightarrow> s' = s"
    and "show_word_buttons s' = show_word_buttons s"
  using assms
  by (auto simp: word_click_translate_example_def split: prod.splits sum.splits if_splits)

lemma word_click_translate_results:
  "(case word_click_translate e word (word_click_reset word s, log) of
      (s1, log1, raised) \<Rightarrow> (results_of s1, log1, raised))
   = (case word_click_translate e word (word_click_reset word s', log) of
      (s1, log1, raised) \<Rightarrow> (results_of s1, log1, raised))"
  by (simp add: word_click_translate_def word_click_reset_def results_of_def
      split: prod.splits sum.splits)

lemma word_click_example_results:
  "results_of s = results_of s' \<Longrightarrow>
   (case word_click_example e word (s, log) of (s2, log2) \<Rightarrow> (results_of s2, log2))
   = (case word_click_example e word (s', log) of (s2, log2) \<Rightarrow> (results_of s2, log2))"
  by (simp add: word_click_example_def results_of_def split: prod.splits)

lemma word_click_translate_example_results:
  "results_of s = results_of s' \<Longrightarrow>
   (case word_click_translate_example e (s, log) of
      (s3, log3, raised) \<Rightarrow> (results_of s3, log3, raised))
   = (case word_click_translate_example e (s', log) of
      (s3, log3, raised) \<Rightarrow> (results_of s3, log3, raised))"
  by (simp add: word_click_translate_example_def results_of_def split: prod.splits sum.splits)

lemma word_click_states_results:
  "map (\<lambda>st. results_of (fst st)) (word_click_states e word (s, log))
     = map (\<lambda>st. results_of (fst st)) (word_click_states e word (s', log))"
proof -
  let ?s0 = "word_click_reset word s" and ?t0 = "word_click_reset word s'"
  obtain s1 l1 r1 where s1: "word_click_translate e word (?s0, log) = (s1, l1, r1)"
    by (cases "word_click_translate e word (?s0, log)")
  obtain t1 m1 q1 where t1: "word_click_translate e word (?t0, log) = (t1, m1, q1)"
    by (cases "word_click_translate e word (?t0, log)")
  have r0: "results_of ?s0 = results_of ?t0"
    by (simp add: word_click_reset_def results_of_def)
  have e1: "results_of s1 = results_of t1"
    and t1': "word_click_translate e word (?t0, log) = (t1, l1, r1)"
    using word_click_translate_results [of e word s log s'] by (simp_all add: s1 t1)
  show ?thesis
  proof (cases r1)
    case (Some x)
    then show ?thesis using e1 r0 by (simp add: word_click_states_def s1 t1')
  next
    case None
    obtain s2 l2 where s2: "word_click_example e word (s1, l1) = (s2, l2)"
      by (cases "word_click_example e word (s1, l1)")
    obtain t2 m2 where t2: "word_click_example e word (t1, l1) = (t2, m2)"
      by (cases "word_click_example e word (t1, l1)")
    have e2: "results_of s2 = results_of t2"
      and t2': "word_click_example e word (t1, l1) = (t2, l2)"
      using word_click_example_results [OF e1, of e word l1] by (simp_all add: s2 t2)
    obtain s3 l3 r3 where s3: "word_click_translate_example e (s2, l2) = (s3, l3, r3)"
      by (cases "word_click_translate_example e (s2, l2)")
    obtain t3 m3 q3 where t3: "word_click_translate_example e (t2, l2) = (t3, m3, q3)"
      by (cases "word_click_translate_example e (t2, l2)")
    have e3: "results_of s3 = results_of t3"
      using word_click_translate_example_results [OF e2, of e l2] by (simp add: s3 t3)
    from None e1 e2 e3 r0 show ?thesis
      by (simp add: word_click_states_def s1 t1' s2 t2' s3 t3)
  qed
qed

lemma shown_word_is_active:
  "active_translation_word s = Some word \<Longrightarrow>
   map_option fst (shown_word_translation s) \<in> {None, Some word}"
  by (simp add: shown_word_translation_def split: option.splits)

lemma no_audio_shown: "tts_audio_bytes s = None \<Longrightarrow> \<not> shows_audio s"
  by (simp add: shows_audio_def truthy_def)

lemma word_click_flag:
  "show_word_buttons (fst (handle_word_click e word (s, log))) = show_word_buttons s"
proof -
  let ?s0 = "word_click_reset word s"
  obtain s1 l1 r1 where s1: "word_click_translate e word (?s0, log) = (s1, l1, r1)"
    by (cases "word_click_translate e word (?s0, log)")
  have f1: "show_word_buttons s1 = show_word_buttons s"
    using word_click_translate_fields(6) [OF s1] by (simp add: word_click_reset_def)
  show ?thesis
  proof (cases r1)
    case (Some x)
    then show ?thesis using f1 by (simp add: handle_word_click_def s1)
  next
    case None
    obtain s2 l2 where s2: "word_click_example e word (s1, l1) = (s2, l2)"
      by (cases "word_click_example e word (s1, l1)")
    obtain s3 l3 r3 where s3: "word_click_translate_example e (s2, l2) = (s3, l3, r3)"
      by (cases "word_click_translate_example e (s2, l2)")
    from None show ?thesis
      using f1 word_click_example_fields(5) [OF s2] word_click_translate_example_fields(7) [OF s3]
      by (simp add: handle_word_click_def s1 s2 s3)
  qed
qed

text \<open>
  When the translation of the clicked word returns a text, the pair of the word and the
  text is in the session state at the end of the callback, also when the callback ends
  with an exception of the second translation.
\<close>

lemma word_translation_stored:
  assumes "fst (translate_text e word ''de'' ''en'' log) = Inr (Some t)" and "t \<noteq> []"
  shows "word_translation_result (fst (handle_word_click e word (s, log))) = Some (word, t)"
    and "active_translation_word (fst (handle_word_click e word (s, log))) = Some word"
proof -
  let ?s0 = "word_click_reset word s"
  obtain l1 where s1: "word_click_translate e word (?s0, log)
      = (?s0\<lparr>word_translation_result := Some (word, t)\<rparr>, l1, None)"
    using assms
    by (cases "translate_text e word ''de'' ''en'' log")
      (simp add: word_click_translate_def truthy_def)
  obtain s2 l2 where s2: "word_click_example e word
      (?s0\<lparr>word_translation_result := Some (word, t)\<rparr>, l1) = (s2, l2)"
    by (cases "word_click_example e word (?s0\<lparr>word_translation_result := Some (word, t)\<rparr>, l1)")
  obtain s3 l3 r3 where s3: "word_click_translate_example e (s2, l2) = (s3, l3, r3)"
    by (cases "word_click_translate_example e (s2, l2)")
  have final: "handle_word_click e word (s, log) = (s3, l3, r3)"
    by (simp add: handle_word_click_def s1 s2 s3)
  show "word_translation_result (fst (handle_word_click e word (s, log))) = Some (word, t)"
    using word_click_translate_example_fields(4) [OF s3] word_click_example_fields(4) [OF s2]
    by (simp add: final)
  show "active_translation_word (fst (handle_word_click e word (s, log))) = Some word"
    using word_click_translate_example_fields(1) [OF s3] word_click_example_fields(1) [OF s2]
    by (simp add: final word_click_reset_def)
qed

section \<open>The patterns of the example generator\<close>

lemma first_end_simps [simp]:
  "first_end [] = None" "first_end (n # ns) = Some n"
  by (simp_all add: first_end_def)

lemma first_end_None: "(first_end ns = None) = (ns = [])"
  by (cases ns) simp_all

lemma first_end_append:
  "first_end (ms @ ns) = (case first_end ms of None \<Rightarrow> first_end ns | Some n \<Rightarrow> Some n)"
  by (cases ms) simp_all

lemma first_end_map_Suc: "first_end (map Suc ns) = map_option Suc (first_end ns)"
  by (cases ns) simp_all

lemma match_at_first_end: "match_at r False prev cs = first_end (ends r prev cs)"
  by (simp add: match_at_def first_end_def)

lemma first_end_Star_Cls:
  "first_end (ends (Star (Cls p)) prev cs) = Some (length (takeWhile p cs))"
  by (induction cs arbitrary: prev)
     (simp_all add: ends_Star_Cls_Nil ends_Star_Cls_Cons first_end_append first_end_map_Suc)

lemma ends_Plus_Cls:
  "ends (Plus (Cls p)) prev cs =
     (case cs of [] \<Rightarrow> [] | c # cs' \<Rightarrow> if p c then map Suc (ends (Star (Cls p)) (Some c) cs') else [])"
  unfolding Plus_def by (rule ends_Cls_then)

lemma first_end_Plus_Cls:
  "first_end (ends (Plus (Cls p)) prev cs) =
     (if takeWhile p cs = [] then None else Some (length (takeWhile p cs)))"
  by (cases cs) (simp_all add: ends_Plus_Cls first_end_map_Suc first_end_Star_Cls)

text \<open>White space, then a run of a class that contains the white space.\<close>

lemma first_end_spaces_run:
  assumes "\<And>c. ws c \<Longrightarrow> ld c"
  shows "first_end (ends (Seq (Star (Cls ws)) (Plus (Cls ld))) prev cs) =
           (if takeWhile ld cs = [] then None else Some (length (takeWhile ld cs)))"
proof (induction cs arbitrary: prev)
  case Nil
  show ?case by (simp add: ends_Star_then_Nil ends_Plus_Cls)
next
  case (Cons c cs)
  show ?case
  proof (cases "ws c")
    case True
    then have "ld c" by (rule assms)
    with True Cons [of "Some c"] show ?thesis
      by (simp add: ends_Star_then_Cons first_end_append first_end_map_Suc first_end_Plus_Cls)
  next
    case False
    then show ?thesis
      by (simp add: ends_Star_then_Cons first_end_Plus_Cls)
  qed
qed

text \<open>White space up to the end of the string.\<close>

lemma first_end_spaces_Eol:
  assumes "ws nl"
  shows "first_end (ends (Seq (Star (Cls ws)) (Eol nl)) prev cs) =
           (if list_all ws cs then Some (length cs) else None)"
proof (induction cs arbitrary: prev)
  case Nil
  show ?case by (simp add: ends_Star_then_Nil)
next
  case (Cons c cs)
  show ?case
  proof (cases "ws c")
    case True
    with Cons [of "Some c"] show ?thesis
      by (auto simp: ends_Star_then_Cons first_end_append first_end_map_Suc)
  next
    case False
    with assms have "c \<noteq> nl" by auto
    with False show ?thesis by (simp add: ends_Star_then_Cons)
  qed
qed

lemma first_end_run_spaces_Eol:
  assumes "ws nl" and "\<And>c. q c \<Longrightarrow> \<not> ws c"
  shows "first_end (ends (Seq (Star (Cls q)) (Seq (Star (Cls ws)) (Eol nl))) prev cs) =
           (if list_all ws (dropWhile q cs) then Some (length cs) else None)"
proof (induction cs arbitrary: prev)
  case Nil
  show ?case by (simp add: ends_Star_then_Nil)
next
  case (Cons c cs)
  show ?case
  proof (cases "q c")
    case True
    then have "\<not> ws c" by (rule assms(2))
    then have "first_end (ends (Seq (Star (Cls ws)) (Eol nl)) prev (c # cs)) = None"
      by (simp add: first_end_spaces_Eol [of ws nl, OF assms(1)])
    then have "ends (Seq (Star (Cls ws)) (Eol nl)) prev (c # cs) = []"
      by (simp add: first_end_None)
    with True Cons [of "Some c"] show ?thesis
      by (simp add: ends_Star_then_Cons [of q] first_end_map_Suc)
  next
    case False
    then show ?thesis
      by (simp add: ends_Star_then_Cons [of q] first_end_spaces_Eol [of ws nl, OF assms(1)])
  qed
qed

lemma space_is_lead: "is_space c \<Longrightarrow> lead_char c"
  by (simp add: lead_char_def)

lemma quote_not_space: "quote_char c \<Longrightarrow> \<not> is_space c"
  by (auto simp: quote_char_def is_space_def)

lemma newline_is_space: "is_space (CHR 0x0A)"
  by (simp add: is_space_def)

lemma ends_Bol_then:
  "ends (Seq Bol r) prev cs = (if prev = None then ends r prev cs else [])"
  by (simp add: ends_Seq then_ends_Cons)

lemma first_end_lead:
  "first_end (ends (Seq Bol (Seq (Star (Cls is_space)) (Plus (Cls lead_char)))) prev cs) =
     (if prev = None \<and> takeWhile lead_char cs \<noteq> []
      then Some (length (takeWhile lead_char cs)) else None)"
  by (simp add: ends_Bol_then first_end_spaces_run [of is_space lead_char, OF space_is_lead])

lemma first_end_trail:
  "first_end (ends (Seq (Plus (Cls quote_char))
                     (Seq (Star (Cls is_space)) (Eol (CHR 0x0A)))) prev cs) =
     (if trailing_quotes cs then Some (length cs) else None)"
proof (cases cs)
  case Nil
  then show ?thesis by (simp add: ends_Plus_then trailing_quotes_def)
next
  case (Cons c cs')
  then show ?thesis
    by (simp add: ends_Plus_then trailing_quotes_def first_end_map_Suc
        first_end_run_spaces_Eol [of is_space "CHR 0x0A" quote_char,
          OF newline_is_space quote_not_space])
qed

lemma match_at_marks:
  "match_at marks_rx False prev cs =
     (if prev = None \<and> takeWhile lead_char cs \<noteq> [] then Some (length (takeWhile lead_char cs))
      else if trailing_quotes cs then Some (length cs)
      else None)"
  unfolding match_at_first_end marks_rx_def ends.simps(6) first_end_append
    first_end_lead first_end_trail
  by simp

lemma search_marks:
  "prev \<noteq> None \<or> takeWhile lead_char cs = [] \<Longrightarrow>
   search marks_rx False prev cs =
     (if cut_at trailing_quotes cs = cs then None
      else Some (length (cut_at trailing_quotes cs),
                 length cs - length (cut_at trailing_quotes cs)))"
proof (induction cs arbitrary: prev)
  case Nil
  then show ?case by (auto simp: match_at_marks trailing_quotes_def)
next
  case (Cons c cs)
  from Cons.prems have m:
    "match_at marks_rx False prev (c # cs) =
       (if trailing_quotes (c # cs) then Some (length (c # cs)) else None)"
    by (auto simp: match_at_marks)
  show ?case
  proof (cases "trailing_quotes (c # cs)")
    case True
    with m show ?thesis by simp
  next
    case False
    have "search marks_rx False (Some c) cs =
            (if cut_at trailing_quotes cs = cs then None
             else Some (length (cut_at trailing_quotes cs),
                        length cs - length (cut_at trailing_quotes cs)))"
      by (rule Cons.IH) simp
    with m False show ?thesis by simp
  qed
qed

lemma cut_at_length: "length (cut_at Q cs) \<le> length cs"
  by (induction cs) simp_all

lemma cut_at_take: "take (length (cut_at Q cs)) cs = cut_at Q cs"
  by (induction cs) simp_all

lemma prev_at_Some: "0 < n \<Longrightarrow> cs \<noteq> [] \<Longrightarrow> prev_at prev cs n \<noteq> None"
  by (cases cs; cases n) (simp_all add: prev_at_def split: list.splits)

lemma match_at_Nil_marks: "match_at marks_rx False prev [] = None"
  by (simp add: match_at_marks trailing_quotes_def)

lemma scan_marks_tail:
  assumes "prev \<noteq> None \<or> takeWhile lead_char cs = []"
  shows "(case scan marks_rx False prev cs of (ps, rest) \<Rightarrow> concat (map fst ps) @ rest)
           = cut_at trailing_quotes cs"
proof (cases "cut_at trailing_quotes cs = cs")
  case True
  with assms have "search marks_rx False prev cs = None" by (simp add: search_marks)
  from scan_None [OF this] True show ?thesis by simp
next
  case False
  let ?k = "length (cut_at trailing_quotes cs)"
  let ?n = "length cs - ?k"
  from False assms have s: "search marks_rx False prev cs = Some (?k, ?n)"
    by (simp add: search_marks)
  have kn: "?k + ?n = length cs" using cut_at_length [of trailing_quotes cs] by simp
  have "?k \<noteq> length cs"
    using False cut_at_take [of trailing_quotes cs] by auto
  with kn have n0: "(?n = 0) = False" by simp
  have e: "scan marks_rx False (prev_at prev cs (?k + ?n)) (drop (?k + ?n) cs) = ([], [])"
    by (simp add: kn scan_None match_at_Nil_marks)
  from scan_Some [OF s, of "[]" "[]"] e n0
  have "scan marks_rx False prev cs = ([(take ?k cs, take ?n (drop ?k cs))], [])"
    by simp
  then show ?thesis by (simp add: cut_at_take)
qed

lemma search_at_start:
  "match_at r adv prev cs = Some n \<Longrightarrow> search r adv prev cs = Some (0, n)"
  by (cases cs) simp_all

lemma re_sub_marks:
  "re_sub_empty marks_rx s = cut_at trailing_quotes (dropWhile lead_char s)"
proof (cases "takeWhile lead_char s = []")
  case True
  then have d: "dropWhile lead_char s = s"
    by (simp add: dropWhile_eq_drop)
  from True have "None \<noteq> (None :: char option) \<or> takeWhile lead_char s = []" by simp
  from scan_marks_tail [OF this] show ?thesis
    by (simp add: re_sub_empty_def d case_prod_unfold)
next
  case False
  let ?k = "length (takeWhile lead_char s)"
  from False have k: "0 < ?k" by simp
  from False have ne: "s \<noteq> []" by auto
  from False have "match_at marks_rx False None s = Some ?k" by (simp add: match_at_marks)
  then have s: "search marks_rx False None s = Some (0, ?k)" by (rule search_at_start)
  obtain ps rest where
    sc: "scan marks_rx (?k = 0) (prev_at None s (0 + ?k)) (drop (0 + ?k) s) = (ps, rest)"
    by (cases "scan marks_rx (?k = 0) (prev_at None s (0 + ?k)) (drop (0 + ?k) s)")
  have d: "drop ?k s = dropWhile lead_char s" by (rule drop_takeWhile_length)
  from prev_at_Some [OF k ne] have "prev_at None s ?k \<noteq> None \<or> takeWhile lead_char (drop ?k s) = []"
    by simp
  from scan_marks_tail [OF this] sc k
  have t: "concat (map fst ps) @ rest = cut_at trailing_quotes (dropWhile lead_char s)"
    by (simp add: d)
  from scan_Some [OF s sc] t show ?thesis
    by (simp add: re_sub_empty_def)
qed

subsection \<open>The pattern of the prefix\<close>

lemma ends_Alt_then:
  "ends (Seq (Alt r1 r2) r) prev cs = ends (Seq r1 r) prev cs @ ends (Seq r2 r) prev cs"
  by (simp add: ends_Seq then_ends_append)

lemma ends_Eps_then: "ends (Seq Eps r) prev cs = ends r prev cs"
  by (simp add: ends_Seq then_ends_Cons)

lemma ends_lit_ci_then:
  "ends (Seq (lit_ci l) r) prev cs =
     (if prefix (py_lower l) (py_lower cs)
      then map ((+) (length l)) (ends r (prev_at prev cs (length l)) (drop (length l) cs))
      else [])"
proof (induction l arbitrary: prev cs)
  case Nil
  show ?case by (simp add: ends_Eps_then py_lower_def lit_ci.simps)
next
  case (Cons x xs)
  show ?case
  proof (cases cs)
    case Nil
    then show ?thesis
      by (simp add: ends_Seq_assoc ends_Cls_then py_lower_def lit_ci.simps)
  next
    case (Cons c cs')
    with Cons.IH [of "Some c" cs'] show ?thesis
      by (auto simp: ends_Seq_assoc ends_Cls_then py_lower_def same_letter_def lit_ci.simps)
  qed
qed

lemma colon_not_space: "\<not> is_space (CHR '':'')"
  by (simp add: is_space_def)

lemma after_colon_Nil: "after_colon [] = None"
  by (simp add: after_colon_def)

lemma after_colon_space:
  "is_space c \<Longrightarrow> after_colon (c # cs) = map_option Suc (after_colon cs)"
proof (cases "dropWhile is_space cs")
  case Nil
  moreover assume "is_space c"
  ultimately show ?thesis by (simp add: after_colon_def del: dropWhile_eq_Nil_conv)
next
  case (Cons d u)
  moreover assume "is_space c"
  ultimately show ?thesis by (simp add: after_colon_def)
qed

lemma after_colon_other:
  "\<not> is_space c \<Longrightarrow>
   after_colon (c # cs) =
     (if c = CHR '':'' then Some (Suc (length (takeWhile is_space cs))) else None)"
  by (simp add: after_colon_def colon_not_space)

lemma first_end_colon:
  "first_end (ends (Seq (Star (Cls is_space))
                     (Seq (Cls (\<lambda>c. c = CHR '':'')) (Star (Cls is_space)))) prev cs)
     = after_colon cs"
proof (induction cs arbitrary: prev)
  case Nil
  show ?case by (simp add: ends_Star_then_Nil ends_Cls_then after_colon_Nil)
next
  case (Cons c cs)
  show ?case
  proof (cases "is_space c")
    case True
    with colon_not_space have "c \<noteq> CHR '':''" by auto
    with True Cons [of "Some c"] show ?thesis
      by (simp add: ends_Star_then_Cons [of is_space "Seq _ _"] ends_Cls_then first_end_map_Suc
          after_colon_space)
  next
    case False
    then show ?thesis
      by (simp add: ends_Star_then_Cons [of is_space "Seq _ _"] ends_Cls_then first_end_map_Suc
          first_end_Star_Cls after_colon_other)
  qed
qed

lemma first_end_map_add: "first_end (map ((+) k) ns) = map_option ((+) k) (first_end ns)"
  by (cases ns) simp_all

lemma lower_Beispiel: "py_lower ''Beispiel'' = ''beispiel''"
  by code_simp

lemma lower_Example: "py_lower ''Example'' = ''example''"
  by code_simp

lemma labels_differ:
  "prefix (py_lower ''Beispiel'') (py_lower s) \<Longrightarrow> \<not> prefix (py_lower ''Example'') (py_lower s)"
  unfolding lower_Beispiel lower_Example
proof
  assume "prefix ''beispiel'' (py_lower s)"
  then obtain u where "py_lower s = CHR ''b'' # u"
    by (cases "py_lower s") auto
  moreover assume "prefix ''example'' (py_lower s)"
  ultimately show False by simp
qed

lemma match_at_prefix:
  "match_at prefix_rx False prev cs = (if prev = None then label_end cs else None)"
proof (cases prev)
  case (Some y)
  then show ?thesis
    by (simp add: match_at_first_end prefix_rx_def ends_Bol_then)
next
  case None
  let ?R = "Seq (Star (Cls is_space)) (Seq (Cls (\<lambda>c. c = CHR '':'')) (Star (Cls is_space)))"
  have b: "first_end (ends (Seq (lit_ci ''Beispiel'') ?R) None cs) =
             (if prefix (py_lower ''Beispiel'') (py_lower cs)
              then map_option ((+) 8) (after_colon (drop 8 cs)) else None)"
    by (simp only: ends_lit_ci_then first_end_map_add first_end_colon if_distrib [of first_end]
        first_end_simps) (simp add: eval_nat_numeral)
  have e: "first_end (ends (Seq (lit_ci ''Example'') ?R) None cs) =
             (if prefix (py_lower ''Example'') (py_lower cs)
              then map_option ((+) 7) (after_colon (drop 7 cs)) else None)"
    by (simp only: ends_lit_ci_then first_end_map_add first_end_colon if_distrib [of first_end]
        first_end_simps) (simp add: eval_nat_numeral)
  have "match_at prefix_rx False None cs =
          (case first_end (ends (Seq (lit_ci ''Beispiel'') ?R) None cs) of
             None \<Rightarrow> first_end (ends (Seq (lit_ci ''Example'') ?R) None cs)
           | Some n \<Rightarrow> Some n)"
    by (simp add: match_at_first_end prefix_rx_def ends_Bol_then ends_Alt_then first_end_append)
  also have "\<dots> = label_end cs"
    unfolding b e label_end_def using labels_differ [of cs]
    by (auto split: option.splits)
  finally show ?thesis by (simp add: None)
qed

lemma search_not_at_start:
  "prev \<noteq> None \<Longrightarrow> search prefix_rx False prev cs = None"
proof (induction cs arbitrary: prev)
  case Nil
  then have "match_at prefix_rx False prev [] = None"
    by (cases prev) (simp_all add: match_at_prefix)
  then show ?case by simp
next
  case (Cons c cs)
  then have "match_at prefix_rx False prev (c # cs) = None"
    by (cases prev) (simp_all add: match_at_prefix)
  moreover have "search prefix_rx False (Some c) cs = None"
    by (rule Cons.IH) simp
  ultimately show ?case by simp
qed

lemma search_prefix_None:
  "label_end cs = None \<Longrightarrow> search prefix_rx False None cs = None"
  by (cases cs) (simp_all add: match_at_prefix search_not_at_start)

lemma label_end_pos: "label_end s = Some n \<Longrightarrow> 0 < n"
  by (auto simp: label_end_def split: if_splits)

lemma label_end_le: "label_end s = Some n \<Longrightarrow> n \<le> length s"
  using match_at_le [of prefix_rx False None s n] by (simp add: match_at_prefix)

lemma re_sub_prefix:
  "re_sub_empty prefix_rx s = (case label_end s of None \<Rightarrow> s | Some n \<Rightarrow> drop n s)"
proof (cases "label_end s")
  case None
  from scan_None [OF search_prefix_None [OF None]] None show ?thesis
    by (simp add: re_sub_empty_def)
next
  case (Some n)
  then have m: "match_at prefix_rx False None s = Some n" by (simp add: match_at_prefix)
  from search_at_start [OF m] have s: "search prefix_rx False None s = Some (0, n)" .
  from label_end_pos [OF Some] have n: "0 < n" .
  from label_end_le [OF Some] n have ne: "s \<noteq> []" by auto
  from prev_at_Some [OF n ne] have "prev_at None s (0 + n) \<noteq> None" by simp
  from scan_None [OF search_not_at_start [OF this]] n
  have "scan prefix_rx (n = 0) (prev_at None s (0 + n)) (drop (0 + n) s) = ([], drop (0 + n) s)"
    by simp
  from scan_Some [OF s this] Some show ?thesis
    by (simp add: re_sub_empty_def)
qed

lemma no_trailing_space_strip: "no_trailing_space (strip s)"
proof (cases "dropWhile is_space (rev (dropWhile is_space s))")
  case Nil
  then show ?thesis
    by (simp add: no_trailing_space_def strip_def del: dropWhile_eq_Nil_conv)
next
  case (Cons c u)
  with hd_dropWhile [of is_space "rev (dropWhile is_space s)"] have "\<not> is_space c" by simp
  with Cons show ?thesis by (simp add: no_trailing_space_def strip_def)
qed

lemma no_trailing_space_Cons: "no_trailing_space (c # cs) \<Longrightarrow> no_trailing_space cs"
  by (cases "rev cs") (simp_all add: no_trailing_space_def)

lemma no_trailing_space_dropWhile: "no_trailing_space t \<Longrightarrow> no_trailing_space (dropWhile P t)"
  by (induction t) (auto dest: no_trailing_space_Cons)

lemma no_trailing_space_all:
  "no_trailing_space t \<Longrightarrow> list_all is_space t \<Longrightarrow> t = []"
  by (cases "rev t") (auto simp: no_trailing_space_def list_all_iff dest: arg_cong [where f = set])

lemma trailing_quotes_clean:
  assumes "no_trailing_space t"
  shows "trailing_quotes t = (t \<noteq> [] \<and> list_all quote_char t)"
proof (cases t)
  case Nil
  then show ?thesis by (simp add: trailing_quotes_def)
next
  case (Cons c cs)
  have "list_all is_space (dropWhile quote_char t) = list_all quote_char t"
  proof
    assume "list_all is_space (dropWhile quote_char t)"
    with no_trailing_space_dropWhile [OF assms] have "dropWhile quote_char t = []"
      by (rule no_trailing_space_all)
    then show "list_all quote_char t" by (simp add: list_all_iff)
  next
    assume "list_all quote_char t"
    then have "dropWhile quote_char t = []" by (simp add: list_all_iff)
    then show "list_all is_space (dropWhile quote_char t)"
      by (simp del: dropWhile_eq_Nil_conv)
  qed
  with Cons show ?thesis by (auto simp: trailing_quotes_def)
qed

lemma cut_at_clean:
  "no_trailing_space t \<Longrightarrow>
   cut_at trailing_quotes t = cut_at (\<lambda>u. u \<noteq> [] \<and> list_all quote_char u) t"
proof (induction t)
  case Nil
  show ?case by simp
next
  case (Cons c cs)
  from Cons.IH [OF no_trailing_space_Cons [OF Cons.prems]] trailing_quotes_clean [OF Cons.prems]
  show ?case by simp
qed

lemma cut_at_all: "cut_at (\<lambda>u. u \<noteq> [] \<and> list_all q u) t = rev (dropWhile q (rev t))"
proof (induction t)
  case Nil
  show ?case by simp
next
  case (Cons c cs)
  show ?case
  proof (cases "list_all q cs")
    case True
    then have "dropWhile q (rev cs) = []" by (simp add: list_all_iff)
    moreover from True have "cut_at (\<lambda>u. u \<noteq> [] \<and> list_all q u) cs = []"
      by (cases cs) simp_all
    ultimately show ?thesis using True by (simp add: dropWhile_append list_all_iff)
  next
    case False
    with Cons show ?thesis by (auto simp: dropWhile_append list_all_iff)
  qed
qed

lemma re_sub_marks_clean:
  "no_trailing_space s \<Longrightarrow>
   re_sub_empty marks_rx s = strip_trailing_quotes (strip_leading_marks s)"
  by (simp add: re_sub_marks strip_trailing_quotes_def strip_leading_marks_def
      cut_at_clean [OF no_trailing_space_dropWhile] cut_at_all)

lemma after_colon_rest: "map_option (\<lambda>n. drop n t) (after_colon t) = rest_after_colon t"
proof (cases "dropWhile is_space t")
  case Nil
  then show ?thesis
    by (simp add: after_colon_def rest_after_colon_def del: dropWhile_eq_Nil_conv)
next
  case (Cons c u)
  have "drop (length (takeWhile is_space t) + 1 + length (takeWhile is_space u)) t
          = drop (1 + length (takeWhile is_space u)) (drop (length (takeWhile is_space t)) t)"
    by (simp add: add.commute add.left_commute)
  also have "\<dots> = drop (1 + length (takeWhile is_space u)) (c # u)"
    by (simp only: drop_takeWhile_length Cons)
  also have "\<dots> = dropWhile is_space u"
    by (simp add: drop_takeWhile_length)
  finally show ?thesis using Cons
    by (simp add: after_colon_def rest_after_colon_def)
qed

lemma re_sub_prefix_label: "re_sub_empty prefix_rx s = strip_label s"
proof -
  have a: "(case map_option ((+) k) (after_colon (drop k s)) of None \<Rightarrow> s | Some n \<Rightarrow> drop n s)
             = (case rest_after_colon (drop k s) of None \<Rightarrow> s | Some t \<Rightarrow> t)" for k
    using after_colon_rest [of "drop k s", symmetric]
    by (cases "after_colon (drop k s)") (simp_all add: add.commute)
  show ?thesis
    unfolding re_sub_prefix label_end_def strip_label_def lower_Beispiel lower_Example
    using a [of 8] a [of 7] by simp
qed

lemma clean_sentence_stepwise: "clean_sentence (strip raw) = clean_stepwise raw"
  by (simp add: clean_sentence_def clean_stepwise_def re_sub_prefix_label
      re_sub_marks_clean [OF no_trailing_space_strip])

section \<open>The claims\<close>

text \<open>
  C1. For every sentence, the empty one included, the concatenation of the elements of
  \<open>split_sentence_with_delimiters\<close> in order is the sentence, and no element is the empty
  string. This holds whatever the class \<open>\w\<close> is.
\<close>

theorem split_roundtrip_nonempty:
  "concat (split_sentence_with_delimiters w s) = s
   \<and> [] \<notin> set (split_sentence_with_delimiters w s)"
proof
  show "concat (split_sentence_with_delimiters w s) = s"
  proof (cases "s = []")
    case True
    then show ?thesis by (simp add: split_sentence_with_delimiters_def)
  next
    case False
    then have "concat (split_sentence_with_delimiters w s) = concat (re_split (word_rx w) s)"
      by (simp add: split_sentence_with_delimiters_def concat_filter_nonempty)
    then show ?thesis by (simp add: re_split_concat)
  qed
  show "[] \<notin> set (split_sentence_with_delimiters w s)"
    by (simp add: split_sentence_with_delimiters_def)
qed

text \<open>
  C2, as the code has it. When the text of the widget differs from the stored sentence,
  the input-changed transition stores the new sentence, clears the word translation, the
  sentence translation, the active word, both example results and the audio bytes, and
  also sets the "words visible" flag to false. When the text is the stored sentence it
  changes nothing. The toggle action flips the flag; a word click, the translation of the
  full sentence and a speech request leave the flag as it is.
\<close>

theorem input_changed_resets:
  "(sentence_input_widget s = Some v \<and> input_sentence s \<noteq> v \<longrightarrow>
      update_input_state s =
        Inr (s\<lparr>input_sentence := v, word_translation_result := None,
               sentence_translation_result := None, active_translation_word := None,
               german_example_sentence_result := None,
               english_example_translation_result := None,
               show_word_buttons := False, tts_audio_bytes := None\<rparr>))
   \<and> (sentence_input_widget s = Some (input_sentence s) \<longrightarrow> update_input_state s = Inr s)
   \<and> show_word_buttons (toggle_words s) = (\<not> show_word_buttons s)
   \<and> show_word_buttons (fst (handle_word_click e word (s, log))) = show_word_buttons s
   \<and> show_word_buttons (fst (translate_full_sentence e (s, log))) = show_word_buttons s
   \<and> show_word_buttons (fst (handle_tts_click cfg e txt lang (s, log))) = show_word_buttons s"
proof -
  have "show_word_buttons (fst (handle_word_click e word (s, log))) = show_word_buttons s"
    by (rule word_click_flag)
  moreover have "show_word_buttons (fst (translate_full_sentence e (s, log))) = show_word_buttons s"
    by (simp add: translate_full_sentence_def Let_def split: prod.splits sum.splits)
  moreover have "show_word_buttons (fst (handle_tts_click cfg e txt lang (s, log))) = show_word_buttons s"
    by (simp add: handle_tts_click_def Let_def split: prod.splits)
  moreover have "show_word_buttons (toggle_words s) = (\<not> show_word_buttons s)"
    by (simp add: toggle_words_def Let_def)
  ultimately show ?thesis by (simp add: update_input_state_def)
qed

theorem input_changed_resets_witness:
  "sentence_input_widget stale_state = Some ''Die Katze und der Hund''
   \<and> sentence_input_widget (stale_state\<lparr>sentence_input_widget := Some ''Hund''\<rparr>) = Some ''Hund''
   \<and> input_sentence (stale_state\<lparr>sentence_input_widget := Some ''Hund''\<rparr>) \<noteq> ''Hund''
   \<and> map_sum id results_of (update_input_state (stale_state\<lparr>sentence_input_widget := Some ''Hund''\<rparr>))
       = Inr (None, None, None, None, None, None)
   \<and> map_sum id show_word_buttons
         (update_input_state (stale_state\<lparr>sentence_input_widget := Some ''Hund''\<rparr>)) = Inr False
   \<and> update_input_state stale_state = Inr stale_state"
  using input_changed_resets [of "stale_state\<lparr>sentence_input_widget := Some ''Hund''\<rparr>" "''Hund''"]
    input_changed_resets [of stale_state "''Die Katze und der Hund''"]
  by (simp add: stale_state_def blank_state_def results_of_def)

text \<open>
  The claim as it was stated fails: with the words visible and a new text in the widget,
  the transition leaves the flag false.
\<close>

theorem input_changed_counterexample:
  "show_word_buttons (stale_state\<lparr>sentence_input_widget := Some ''Hund''\<rparr>)
   \<and> map_sum id show_word_buttons
         (update_input_state (stale_state\<lparr>sentence_input_widget := Some ''Hund''\<rparr>)) = Inr False"
  by (simp add: update_input_state_def stale_state_def blank_state_def)

text \<open>
  C3, as the code has it. For a reply whose translated text \<open>t\<close> is not empty,
  \<open>translate_text\<close> returns \<open>t\<close> unchanged unless \<open>t\<close> contains "MYMEMORY WARNING"; in
  that case it returns the part of \<open>t\<close> before the first " NMT", cut again before the first
  " MT ", without the white space around it. That part is a prefix of \<open>t\<close> in which neither
  " NMT" nor " MT " occurs.
\<close>

theorem translate_text_warning:
  assumes "http_get e log api_url (params text src tgt) = Http_json (Some t)"
    and "text \<noteq> []" and "t \<noteq> []"
  shows "fst (translate_text e text src tgt log) =
           Inr (Some (if str_in ''MYMEMORY WARNING'' t
                      then strip (split_head '' MT '' (split_head '' NMT'' t))
                      else t))
         \<and> prefix (split_head '' MT '' (split_head '' NMT'' t)) t
         \<and> \<not> str_in '' NMT'' (split_head '' MT '' (split_head '' NMT'' t))
         \<and> \<not> str_in '' MT '' (split_head '' MT '' (split_head '' NMT'' t))"
proof -
  from assms have "fst (translate_text e text src tgt log) =
           Inr (Some (if str_in ''MYMEMORY WARNING'' t
                      then strip (split_head '' MT '' (split_head '' NMT'' t))
                      else t))"
    by (simp add: translate_text_def translate_try_def truthy_def)
  moreover have "prefix (split_head '' MT '' (split_head '' NMT'' t)) t"
    by (rule prefix_order.trans [OF split_head_prefix split_head_prefix])
  moreover have "\<not> str_in '' NMT'' (split_head '' NMT'' t)"
    by (rule not_in_split_head) simp
  then have "\<not> str_in '' NMT'' (split_head '' MT '' (split_head '' NMT'' t))"
    using str_in_prefix [OF _ split_head_prefix] by blast
  moreover have "\<not> str_in '' MT '' (split_head '' MT '' (split_head '' NMT'' t))"
    by (rule not_in_split_head) simp
  ultimately show ?thesis by simp
qed

theorem translate_text_warning_witness:
  "fst (translate_text
          (fixed_env (Http_json (Some ''Hallo NMT MYMEMORY WARNING: QUOTA'')) Chat_raised None None)
          ''Hello'' ''en'' ''de'' []) = Inr (Some ''Hallo'')"
proof -
  have "str_in ''MYMEMORY WARNING'' ''Hallo NMT MYMEMORY WARNING: QUOTA''"
    by code_simp
  moreover have "strip (split_head '' MT '' (split_head '' NMT''
                   ''Hallo NMT MYMEMORY WARNING: QUOTA'')) = ''Hallo''"
    by code_simp
  ultimately show ?thesis
    using translate_text_warning
      [of "fixed_env (Http_json (Some ''Hallo NMT MYMEMORY WARNING: QUOTA'')) Chat_raised None None"
          "[]" "''Hello''" "''en''" "''de''" "''Hallo NMT MYMEMORY WARNING: QUOTA''"]
    by (simp add: fixed_env_def)
qed

text \<open>
  The claim as it was stated fails: the reply "Hallo NMT" holds no "MYMEMORY WARNING", and
  is returned as it is.
\<close>

theorem translate_text_warning_counterexample:
  "fst (translate_text (fixed_env (Http_json (Some ''Hallo NMT'')) Chat_raised None None)
          ''Hello'' ''en'' ''de'' []) = Inr (Some ''Hallo NMT'')
   \<and> fst (translate_text (fixed_env (Http_json (Some ''Hallo NMT'')) Chat_raised None None)
          ''Hello'' ''en'' ''de'' []) \<noteq> Inr (Some ''Hallo'')"
  by (simp add: translate_text_def translate_try_def truthy_def fixed_env_def prefix_Cons)

text \<open>
  C4. For every prior state and every clicked word, the assignments before the first
  request set the active word and leave the word translation, the sentence translation,
  both example results and the audio bytes empty, so that no audio is shown. At every
  moment of the transition at which a request is issued, and at its end, also when it
  ends with an exception, the active word is the clicked word, the sentence translation
  and the audio are empty, and the word translation stored or shown is empty or is for
  the clicked word. The result fields at these moments do not depend on the prior state.
\<close>

theorem word_click_clears:
  "results_of (word_click_reset word s) = (None, None, Some word, None, None, None)
   \<and> \<not> shows_audio (word_click_reset word s)
   \<and> hd (word_click_states e word (s, log)) = (word_click_reset word s, log)
   \<and> last (word_click_states e word (s, log))
       = (fst (handle_word_click e word (s, log)), fst (snd (handle_word_click e word (s, log))))
   \<and> (\<forall>st \<in> set (word_click_states e word (s, log)).
         active_translation_word (fst st) = Some word
         \<and> sentence_translation_result (fst st) = None
         \<and> tts_audio_bytes (fst st) = None
         \<and> \<not> shows_audio (fst st)
         \<and> map_option fst (word_translation_result (fst st)) \<in> {None, Some word}
         \<and> map_option fst (shown_word_translation (fst st)) \<in> {None, Some word})
   \<and> map (\<lambda>st. results_of (fst st)) (word_click_states e word (s, log))
       = map (\<lambda>st. results_of (fst st)) (word_click_states e word (s', log))"
proof -
  let ?s0 = "word_click_reset word s"
  let ?ok = "\<lambda>st. active_translation_word st = Some word
         \<and> sentence_translation_result st = None
         \<and> tts_audio_bytes st = None
         \<and> \<not> shows_audio st
         \<and> map_option fst (word_translation_result st) \<in> {None, Some word}
         \<and> map_option fst (shown_word_translation st) \<in> {None, Some word}"
  obtain s1 l1 r1 where s1: "word_click_translate e word (?s0, log) = (s1, l1, r1)"
    by (cases "word_click_translate e word (?s0, log)")
  have r0: "results_of ?s0 = (None, None, Some word, None, None, None)"
    by (simp add: word_click_reset_def results_of_def)
  have f0: "active_translation_word ?s0 = Some word" "sentence_translation_result ?s0 = None"
    "tts_audio_bytes ?s0 = None" "word_translation_result ?s0 = None"
    by (simp_all add: word_click_reset_def)
  have ok0: "?ok ?s0"
    using f0 no_audio_shown [of ?s0] shown_word_is_active [of ?s0 word] by simp
  have same: "map (\<lambda>st. results_of (fst st)) (word_click_states e word (s, log))
       = map (\<lambda>st. results_of (fst st)) (word_click_states e word (s', log))"
    by (rule word_click_states_results)
  have ends: "hd (word_click_states e word (s, log)) = (?s0, log)
       \<and> last (word_click_states e word (s, log))
           = (fst (handle_word_click e word (s, log)),
              fst (snd (handle_word_click e word (s, log))))
       \<and> (\<forall>st \<in> set (word_click_states e word (s, log)). ?ok (fst st))"
  proof (cases r1)
    case (Some x)
    have "s1 = ?s0"
      using word_click_translate_fields(5) [OF s1 Some] .
    with ok0 Some show ?thesis
      by (simp add: word_click_states_def handle_word_click_def s1)
  next
    case None
    obtain s2 l2 where s2: "word_click_example e word (s1, l1) = (s2, l2)"
      by (cases "word_click_example e word (s1, l1)")
    obtain s3 l3 r3 where s3: "word_click_translate_example e (s2, l2) = (s3, l3, r3)"
      by (cases "word_click_translate_example e (s2, l2)")
    have f1: "active_translation_word s1 = Some word" "sentence_translation_result s1 = None"
      "tts_audio_bytes s1 = None" "\<exists>t. word_translation_result s1 = Some (word, t)"
      using word_click_translate_fields(1-3) [OF s1] word_click_translate_fields(4) [OF s1 None] f0
      by simp_all
    have ok1: "?ok s1"
      using f1 no_audio_shown [of s1] shown_word_is_active [of s1 word] by auto
    have f2: "active_translation_word s2 = Some word" "sentence_translation_result s2 = None"
      "tts_audio_bytes s2 = None" "\<exists>t. word_translation_result s2 = Some (word, t)"
      using word_click_example_fields(1-4) [OF s2] f1 by simp_all
    have ok2: "?ok s2"
      using f2 no_audio_shown [of s2] shown_word_is_active [of s2 word] by auto
    have f3: "active_translation_word s3 = Some word" "sentence_translation_result s3 = None"
      "tts_audio_bytes s3 = None" "\<exists>t. word_translation_result s3 = Some (word, t)"
      using word_click_translate_example_fields(1-4) [OF s3] f2 by simp_all
    have ok3: "?ok s3"
      using f3 no_audio_shown [of s3] shown_word_is_active [of s3 word] by auto
    from None ok0 ok1 ok2 ok3 show ?thesis
      by (simp add: word_click_states_def handle_word_click_def s1 s2 s3)
  qed
  from r0 ok0 ends same show ?thesis by simp
qed

theorem word_click_clears_witness:
  "results_of stale_state
     = (Some (''Katze'', ''cat''), Some ''The cat and the dog'', Some ''Katze'',
        Some ''Die Katze ist da.'', Some ''The cat is here.'', Some ''RIFF'')
   \<and> results_of (fst (handle_word_click
        (fixed_env (Http_json (Some ''dog'')) (Chat_content ''Der Hund bellt.'') None None)
        ''Hund'' (stale_state, [])))
     = (Some (''Hund'', ''dog''), None, Some ''Hund'', Some ''Der Hund bellt.'', Some ''dog'', None)
   \<and> (fst (handle_word_click
          (fixed_env (Http_json (Some ''dog'')) (Chat_content ''Der Hund bellt.'') None None)
          ''Hund'' (stale_state, [])),
        fst (snd (handle_word_click
          (fixed_env (Http_json (Some ''dog'')) (Chat_content ''Der Hund bellt.'') None None)
          ''Hund'' (stale_state, []))))
       \<in> set (word_click_states
        (fixed_env (Http_json (Some ''dog'')) (Chat_content ''Der Hund bellt.'') None None)
        ''Hund'' (stale_state, []))
   \<and> active_translation_word (fst (handle_word_click
        (fixed_env (Http_json (Some ''dog'')) (Chat_content ''Der Hund bellt.'') None None)
        ''Hund'' (stale_state, []))) = Some ''Hund''
   \<and> results_of (fst (handle_word_click
        (fixed_env (Get_raised ValueError) (Chat_content ''Der Hund bellt.'') None None)
        ''Hund'' (stale_state, [])))
     = (None, None, Some ''Hund'', None, None, None)"
proof -
  let ?e = "fixed_env (Http_json (Some ''dog'')) (Chat_content ''Der Hund bellt.'') None None"
  let ?g = "fixed_env (Get_raised ValueError) (Chat_content ''Der Hund bellt.'') None None"
  have a: "results_of stale_state
     = (Some (''Katze'', ''cat''), Some ''The cat and the dog'', Some ''Katze'',
        Some ''Die Katze ist da.'', Some ''The cat is here.'', Some ''RIFF'')"
    by (simp add: stale_state_def blank_state_def results_of_def)
  have b: "results_of (fst (handle_word_click ?e ''Hund'' (stale_state, [])))
     = (Some (''Hund'', ''dog''), None, Some ''Hund'', Some ''Der Hund bellt.'', Some ''dog'', None)"
    by code_simp
  have d: "results_of (fst (handle_word_click ?g ''Hund'' (stale_state, [])))
     = (None, None, Some ''Hund'', None, None, None)"
    by code_simp
  have n: "word_click_states ?e ''Hund'' (stale_state, []) \<noteq> []"
    by (simp add: word_click_states_def split: prod.splits option.splits)
  note c = word_click_clears [of "''Hund''" stale_state ?e "[]" stale_state]
  from c have "last (word_click_states ?e ''Hund'' (stale_state, []))
       = (fst (handle_word_click ?e ''Hund'' (stale_state, [])),
          fst (snd (handle_word_click ?e ''Hund'' (stale_state, []))))"
    by simp
  with last_in_set [OF n]
  have m: "(fst (handle_word_click ?e ''Hund'' (stale_state, [])),
            fst (snd (handle_word_click ?e ''Hund'' (stale_state, []))))
       \<in> set (word_click_states ?e ''Hund'' (stale_state, []))"
    by simp
  from c have "\<forall>st \<in> set (word_click_states ?e ''Hund'' (stale_state, [])).
                 active_translation_word (fst st) = Some ''Hund''"
    by blast
  with m have "active_translation_word (fst (handle_word_click ?e ''Hund'' (stale_state, [])))
                 = Some ''Hund''"
    by fastforce
  with a b d m show ?thesis by simp
qed

text \<open>
  C5. The list of word buttons is deduplicated without regard to case: no two of its words
  have the same lower case, every word of the input is represented, the words stand in
  the order of the input, and each is the first word of the input with its lower case, in
  its original spelling. For the sentence "Der Hund und der Hund" the list is
  Der, Hund, und.
\<close>

theorem word_buttons_dedup:
  "distinct (map lower (display_words_list lower ws))
   \<and> lower ` set (display_words_list lower ws) = lower ` set ws
   \<and> subseq (display_words_list lower ws) ws
   \<and> (\<forall>x \<in> set (display_words_list lower ws). find (\<lambda>y. lower y = lower x) ws = Some x)
   \<and> word_buttons py_word py_lower ''Der Hund und der Hund'' = [''Der'', ''Hund'', ''und'']"
proof -
  have eq: "display_words_list lower ws = firsts lower {} ws"
    by (simp add: display_words_list_def display_words_loop_firsts)
  have "word_buttons py_word py_lower ''Der Hund und der Hund'' = [''Der'', ''Hund'', ''und'']"
    by code_simp
  then show ?thesis
    unfolding eq
    by (simp add: firsts_distinct firsts_image firsts_subseq firsts_find)
qed

theorem word_buttons_dedup_witness:
  "display_words_list py_lower [''Der'', ''der'', ''Hund''] = [''Der'', ''Hund'']
   \<and> find (\<lambda>y. py_lower y = py_lower ''Hund'') [''Der'', ''der'', ''Hund''] = Some ''Hund''"
proof -
  have d: "display_words_list py_lower [''Der'', ''der'', ''Hund''] = [''Der'', ''Hund'']"
    by code_simp
  from word_buttons_dedup [of py_lower "[''Der'', ''der'', ''Hund'']"]
  have "\<forall>x \<in> set (display_words_list py_lower [''Der'', ''der'', ''Hund'']).
          find (\<lambda>y. py_lower y = py_lower x) [''Der'', ''der'', ''Hund''] = Some x"
    by blast
  with d show ?thesis by simp
qed

text \<open>
  C6. An engine fails when it returns \<open>(None, None, None)\<close>: it is not ready, the text is
  empty, or it raises. The configured engine is tried first, and when it gives audio its
  result is the result, under its own name: the audio of the Hugging Face model as
  "Hugging Face" after the one request to the model, and, when gTTS is configured, the
  audio of gTTS as "gTTS" after the one request to gTTS. When the configured engine fails
  or is not available and gTTS is installed, gTTS is called after the calls of the
  configured engine, and the result is its result with the engine name tagged: audio of
  gTTS is then returned under the name "gTTS (Fallback)". The result is absent exactly
  when the configured engine fails or is not available and gTTS is not installed or
  fails. For the empty text the result is absent and no engine is called.
\<close>

theorem speech_fallback:
  "generate_speech_audio cfg e [] lang log = (no_speech, log)
   \<and> (TTS_ENGINE cfg = ''huggingface'' \<and> hf_libraries_installed cfg \<and> hf_loaded cfg
        \<and> phrase \<noteq> [] \<and> hf_synth e log phrase = Some a \<longrightarrow>
      generate_speech_audio cfg e phrase lang log
        = ((Some a, Some ''audio/wav'', Some ''Hugging Face''), log @ [Hf_synth phrase]))
   \<and> (TTS_ENGINE cfg = ''gtts'' \<and> gtts_installed cfg
        \<and> phrase \<noteq> [] \<and> gtts_synth e log phrase lang = Some a \<longrightarrow>
      generate_speech_audio cfg e phrase lang log
        = ((Some a, Some ''audio/mp3'', Some ''gTTS''), log @ [Gtts_synth phrase lang]))
   \<and> (TTS_ENGINE cfg = ''huggingface'' \<and> hf_libraries_installed cfg \<and> hf_loaded cfg
        \<and> phrase \<noteq> [] \<and> hf_synth e log phrase = None \<and> gtts_installed cfg \<longrightarrow>
      generate_speech_audio cfg e phrase lang log
        = (case gtts_synth e (log @ [Hf_synth phrase]) phrase lang of
             None \<Rightarrow> no_speech
           | Some c \<Rightarrow> (Some c, Some ''audio/mp3'', Some ''gTTS (Fallback)''),
           log @ [Hf_synth phrase, Gtts_synth phrase lang]))
   \<and> (TTS_ENGINE cfg = ''gtts'' \<and> gtts_installed cfg
        \<and> phrase \<noteq> [] \<and> gtts_synth e log phrase lang = None \<longrightarrow>
      generate_speech_audio cfg e phrase lang log
        = (case gtts_synth e (log @ [Gtts_synth phrase lang]) phrase lang of
             None \<Rightarrow> no_speech
           | Some c \<Rightarrow> (Some c, Some ''audio/mp3'', Some ''gTTS (Fallback)''),
           log @ [Gtts_synth phrase lang, Gtts_synth phrase lang]))
   \<and> (\<not> (TTS_ENGINE cfg = ''huggingface'' \<and> hf_libraries_installed cfg \<and> hf_loaded cfg)
        \<and> TTS_ENGINE cfg \<noteq> ''gtts'' \<and> gtts_installed cfg \<and> phrase \<noteq> [] \<longrightarrow>
      generate_speech_audio cfg e phrase lang log
        = (case gtts_synth e log phrase lang of
             None \<Rightarrow> no_speech
           | Some c \<Rightarrow> (Some c, Some ''audio/mp3'', Some ''gTTS (Fallback)''),
           log @ [Gtts_synth phrase lang]))
   \<and> (TTS_ENGINE cfg = ''huggingface'' \<and> hf_libraries_installed cfg \<and> hf_loaded cfg
        \<and> phrase \<noteq> [] \<and> hf_synth e log phrase = None \<and> \<not> gtts_installed cfg \<longrightarrow>
      generate_speech_audio cfg e phrase lang log = (no_speech, log @ [Hf_synth phrase]))
   \<and> (\<not> (TTS_ENGINE cfg = ''huggingface'' \<and> hf_libraries_installed cfg \<and> hf_loaded cfg)
        \<and> \<not> gtts_installed cfg \<longrightarrow>
      generate_speech_audio cfg e phrase lang log = (no_speech, log))
   \<and> (fst (primary_speech cfg e phrase lang log) \<noteq> no_speech \<longrightarrow>
      generate_speech_audio cfg e phrase lang log = primary_speech cfg e phrase lang log)
   \<and> (fst (primary_speech cfg e phrase lang log) = no_speech \<and> gtts_installed cfg \<longrightarrow>
      generate_speech_audio cfg e phrase lang log
        = (case generate_speech_audio_gtts cfg e phrase lang (snd (primary_speech cfg e phrase lang log))
           of (r, log2) \<Rightarrow> (tag_fallback r, log2)))
   \<and> (fst (primary_speech cfg e phrase lang log) = no_speech \<and> gtts_installed cfg \<and> phrase \<noteq> []
        \<and> gtts_synth e (snd (primary_speech cfg e phrase lang log)) phrase lang = Some b \<longrightarrow>
      generate_speech_audio cfg e phrase lang log
        = ((Some b, Some ''audio/mp3'', Some ''gTTS (Fallback)''),
           snd (primary_speech cfg e phrase lang log) @ [Gtts_synth phrase lang]))
   \<and> ((fst (generate_speech_audio cfg e phrase lang log) = no_speech)
        = (fst (primary_speech cfg e phrase lang log) = no_speech
           \<and> (\<not> gtts_installed cfg \<or> phrase = []
               \<or> gtts_synth e (snd (primary_speech cfg e phrase lang log)) phrase lang = None)))
   \<and> (\<exists>calls. snd (generate_speech_audio cfg e phrase lang log)
                  = snd (primary_speech cfg e phrase lang log) @ calls)
   \<and> (TTS_ENGINE cfg = ''huggingface'' \<and> hf_libraries_installed cfg \<and> hf_loaded cfg
        \<and> phrase \<noteq> [] \<longrightarrow>
      (\<exists>calls. snd (generate_speech_audio cfg e phrase lang log) = log @ Hf_synth phrase # calls))
   \<and> (TTS_ENGINE cfg = ''gtts'' \<and> gtts_installed cfg \<and> phrase \<noteq> [] \<longrightarrow>
      (\<exists>calls. snd (generate_speech_audio cfg e phrase lang log)
                  = log @ Gtts_synth phrase lang # calls))"
proof -
  obtain r log1 where p: "primary_speech cfg e phrase lang log = (r, log1)"
    by (cases "primary_speech cfg e phrase lang log")
  have a: "(fst r = None) = (r = no_speech)"
    using primary_absent_iff [of cfg e phrase lang log] by (simp add: p)
  obtain r2 log2 where g: "generate_speech_audio_gtts cfg e phrase lang log1 = (r2, log2)"
    by (cases "generate_speech_audio_gtts cfg e phrase lang log1")
  have g_abs: "(r2 = no_speech) = (\<not> gtts_installed cfg \<or> phrase = [] \<or> gtts_synth e log1 phrase lang = None)"
    using gtts_absent [of cfg e phrase lang log1] by (simp add: g)
  have tag: "(tag_fallback r2 = no_speech) = (r2 = no_speech)"
    by (cases r2) (auto simp: tag_fallback_def no_speech_def truthy_def)
  have log2: "\<exists>calls. log2 = log1 @ calls"
    using g by (auto simp: generate_speech_audio_gtts_def split: if_splits)
  have t1: "generate_speech_audio cfg e [] lang log = (no_speech, log)"
    by (rule speech_empty_text)
  have t2: "TTS_ENGINE cfg = ''huggingface'' \<and> hf_libraries_installed cfg \<and> hf_loaded cfg
        \<and> phrase \<noteq> [] \<and> hf_synth e log phrase = Some a \<longrightarrow>
      generate_speech_audio cfg e phrase lang log
        = ((Some a, Some ''audio/wav'', Some ''Hugging Face''), log @ [Hf_synth phrase])"
    by (simp add: speech_hf_first)
  have t3: "TTS_ENGINE cfg = ''gtts'' \<and> gtts_installed cfg
        \<and> phrase \<noteq> [] \<and> gtts_synth e log phrase lang = Some a \<longrightarrow>
      generate_speech_audio cfg e phrase lang log
        = ((Some a, Some ''audio/mp3'', Some ''gTTS''), log @ [Gtts_synth phrase lang])"
    by (simp add: speech_gtts_first)
  have t4: "TTS_ENGINE cfg = ''huggingface'' \<and> hf_libraries_installed cfg \<and> hf_loaded cfg
        \<and> phrase \<noteq> [] \<and> hf_synth e log phrase = None \<and> gtts_installed cfg \<longrightarrow>
      generate_speech_audio cfg e phrase lang log
        = (case gtts_synth e (log @ [Hf_synth phrase]) phrase lang of
             None \<Rightarrow> no_speech
           | Some c \<Rightarrow> (Some c, Some ''audio/mp3'', Some ''gTTS (Fallback)''),
           log @ [Hf_synth phrase, Gtts_synth phrase lang])"
    by (simp add: speech_hf_failed(1))
  have t5: "TTS_ENGINE cfg = ''gtts'' \<and> gtts_installed cfg
        \<and> phrase \<noteq> [] \<and> gtts_synth e log phrase lang = None \<longrightarrow>
      generate_speech_audio cfg e phrase lang log
        = (case gtts_synth e (log @ [Gtts_synth phrase lang]) phrase lang of
             None \<Rightarrow> no_speech
           | Some c \<Rightarrow> (Some c, Some ''audio/mp3'', Some ''gTTS (Fallback)''),
           log @ [Gtts_synth phrase lang, Gtts_synth phrase lang])"
    by (simp add: speech_gtts_failed)
  have t6: "\<not> (TTS_ENGINE cfg = ''huggingface'' \<and> hf_libraries_installed cfg \<and> hf_loaded cfg)
        \<and> TTS_ENGINE cfg \<noteq> ''gtts'' \<and> gtts_installed cfg \<and> phrase \<noteq> [] \<longrightarrow>
      generate_speech_audio cfg e phrase lang log
        = (case gtts_synth e log phrase lang of
             None \<Rightarrow> no_speech
           | Some c \<Rightarrow> (Some c, Some ''audio/mp3'', Some ''gTTS (Fallback)''),
           log @ [Gtts_synth phrase lang])"
    using speech_no_primary(1) [of cfg phrase e lang log] by blast
  have t7: "TTS_ENGINE cfg = ''huggingface'' \<and> hf_libraries_installed cfg \<and> hf_loaded cfg
        \<and> phrase \<noteq> [] \<and> hf_synth e log phrase = None \<and> \<not> gtts_installed cfg \<longrightarrow>
      generate_speech_audio cfg e phrase lang log = (no_speech, log @ [Hf_synth phrase])"
    by (simp add: speech_hf_failed(2))
  have t8: "\<not> (TTS_ENGINE cfg = ''huggingface'' \<and> hf_libraries_installed cfg \<and> hf_loaded cfg)
        \<and> \<not> gtts_installed cfg \<longrightarrow>
      generate_speech_audio cfg e phrase lang log = (no_speech, log)"
    using speech_no_primary(2) [of cfg e phrase lang log] by blast
  have c1: "fst (primary_speech cfg e phrase lang log) \<noteq> no_speech \<longrightarrow>
      generate_speech_audio cfg e phrase lang log = primary_speech cfg e phrase lang log"
    by (simp add: generate_speech_audio_def p a)
  have c2: "fst (primary_speech cfg e phrase lang log) = no_speech \<and> gtts_installed cfg \<longrightarrow>
      generate_speech_audio cfg e phrase lang log
        = (case generate_speech_audio_gtts cfg e phrase lang (snd (primary_speech cfg e phrase lang log))
           of (r, log2) \<Rightarrow> (tag_fallback r, log2))"
    by (simp add: generate_speech_audio_def p a g)
  have c3: "fst (primary_speech cfg e phrase lang log) = no_speech \<and> gtts_installed cfg \<and> phrase \<noteq> []
        \<and> gtts_synth e (snd (primary_speech cfg e phrase lang log)) phrase lang = Some b \<longrightarrow>
      generate_speech_audio cfg e phrase lang log
        = ((Some b, Some ''audio/mp3'', Some ''gTTS (Fallback)''),
           snd (primary_speech cfg e phrase lang log) @ [Gtts_synth phrase lang])"
    by (simp add: generate_speech_audio_def p a gtts_present tag_fallback_def truthy_def)
  have c4: "(fst (generate_speech_audio cfg e phrase lang log) = no_speech)
        = (fst (primary_speech cfg e phrase lang log) = no_speech
           \<and> (\<not> gtts_installed cfg \<or> phrase = []
               \<or> gtts_synth e (snd (primary_speech cfg e phrase lang log)) phrase lang = None))"
    using g_abs tag by (auto simp: generate_speech_audio_def p a g)
  have c5: "\<exists>calls. snd (generate_speech_audio cfg e phrase lang log)
                  = snd (primary_speech cfg e phrase lang log) @ calls"
    using log2 by (auto simp: generate_speech_audio_def p a g)
  have hf: "TTS_ENGINE cfg = ''huggingface'' \<and> hf_libraries_installed cfg \<and> hf_loaded cfg
        \<and> phrase \<noteq> [] \<longrightarrow> log1 = log @ [Hf_synth phrase]"
    using p by (auto simp: primary_speech_def generate_speech_audio_hf_def)
  have gt: "TTS_ENGINE cfg = ''gtts'' \<and> gtts_installed cfg \<and> phrase \<noteq> [] \<longrightarrow>
        log1 = log @ [Gtts_synth phrase lang]"
    using p by (auto simp: primary_speech_def generate_speech_audio_gtts_def)
  from c5 hf
  have c6: "TTS_ENGINE cfg = ''huggingface'' \<and> hf_libraries_installed cfg \<and> hf_loaded cfg
        \<and> phrase \<noteq> [] \<longrightarrow>
      (\<exists>calls. snd (generate_speech_audio cfg e phrase lang log) = log @ Hf_synth phrase # calls)"
    by (auto simp: p)
  from c5 gt
  have c7: "TTS_ENGINE cfg = ''gtts'' \<and> gtts_installed cfg \<and> phrase \<noteq> [] \<longrightarrow>
      (\<exists>calls. snd (generate_speech_audio cfg e phrase lang log)
                  = log @ Gtts_synth phrase lang # calls)"
    by (auto simp: p)
  show ?thesis
    by (intro conjI) (rule t1 t2 t3 t4 t5 t6 t7 t8 c1 c2 c3 c4 c5 c6 c7)+
qed

theorem speech_fallback_witness:
  "generate_speech_audio hf_cfg (fixed_env (Http_json None) Chat_raised (Some ''RIFF'') (Some ''ID3''))
        ''Hund'' ''de'' []
       = ((Some ''RIFF'', Some ''audio/wav'', Some ''Hugging Face''), [Hf_synth ''Hund''])
   \<and> generate_speech_audio gtts_cfg (fixed_env (Http_json None) Chat_raised (Some ''RIFF'') (Some ''ID3''))
        ''Hund'' ''de'' []
       = ((Some ''ID3'', Some ''audio/mp3'', Some ''gTTS''), [Gtts_synth ''Hund'' ''de''])
   \<and> generate_speech_audio hf_cfg (fixed_env (Http_json None) Chat_raised None (Some ''ID3''))
        ''Hund'' ''de'' []
       = ((Some ''ID3'', Some ''audio/mp3'', Some ''gTTS (Fallback)''),
          [Hf_synth ''Hund'', Gtts_synth ''Hund'' ''de''])
   \<and> generate_speech_audio (hf_cfg\<lparr>hf_loaded := False\<rparr>)
        (fixed_env (Http_json None) Chat_raised (Some ''RIFF'') (Some ''ID3'')) ''Hund'' ''de'' []
       = ((Some ''ID3'', Some ''audio/mp3'', Some ''gTTS (Fallback)''), [Gtts_synth ''Hund'' ''de''])
   \<and> generate_speech_audio hf_cfg (fixed_env (Http_json None) Chat_raised None None)
        ''Hund'' ''de'' []
       = (no_speech, [Hf_synth ''Hund'', Gtts_synth ''Hund'' ''de''])
   \<and> generate_speech_audio gtts_cfg (fixed_env (Http_json None) Chat_raised (Some ''RIFF'') None)
        ''Hund'' ''de'' []
       = (no_speech, [Gtts_synth ''Hund'' ''de'', Gtts_synth ''Hund'' ''de''])
   \<and> generate_speech_audio (hf_cfg\<lparr>gtts_installed := False\<rparr>)
        (fixed_env (Http_json None) Chat_raised None (Some ''ID3'')) ''Hund'' ''de'' []
       = (no_speech, [Hf_synth ''Hund''])
   \<and> generate_speech_audio (gtts_cfg\<lparr>gtts_installed := False\<rparr>)
        (fixed_env (Http_json None) Chat_raised (Some ''RIFF'') (Some ''ID3'')) ''Hund'' ''de'' []
       = (no_speech, [])
   \<and> fst (primary_speech hf_cfg (fixed_env (Http_json None) Chat_raised None (Some ''ID3''))
          ''Hund'' ''de'' []) = no_speech
   \<and> gtts_installed hf_cfg"
proof -
  let ?both = "fixed_env (Http_json None) Chat_raised (Some ''RIFF'') (Some ''ID3'')"
  let ?gtts = "fixed_env (Http_json None) Chat_raised None (Some ''ID3'')"
  let ?hf = "fixed_env (Http_json None) Chat_raised (Some ''RIFF'') None"
  let ?none = "fixed_env (Http_json None) Chat_raised None None"
  have 1: "generate_speech_audio hf_cfg ?both ''Hund'' ''de'' []
       = ((Some ''RIFF'', Some ''audio/wav'', Some ''Hugging Face''), [Hf_synth ''Hund''])"
    using speech_fallback [where cfg = hf_cfg and e = ?both and phrase = "''Hund''"
        and lang = "''de''" and log = "[]" and a = "''RIFF''", THEN conjunct2, THEN conjunct1]
    by (simp add: hf_cfg_def fixed_env_def)
  have 2: "generate_speech_audio gtts_cfg ?both ''Hund'' ''de'' []
       = ((Some ''ID3'', Some ''audio/mp3'', Some ''gTTS''), [Gtts_synth ''Hund'' ''de''])"
    using speech_fallback [where cfg = gtts_cfg and e = ?both and phrase = "''Hund''"
        and lang = "''de''" and log = "[]" and a = "''ID3''",
        THEN conjunct2, THEN conjunct2, THEN conjunct1]
    by (simp add: gtts_cfg_def hf_cfg_def fixed_env_def)
  have 3: "generate_speech_audio hf_cfg ?gtts ''Hund'' ''de'' []
       = ((Some ''ID3'', Some ''audio/mp3'', Some ''gTTS (Fallback)''),
          [Hf_synth ''Hund'', Gtts_synth ''Hund'' ''de''])"
    using speech_fallback [where cfg = hf_cfg and e = ?gtts and phrase = "''Hund''"
        and lang = "''de''" and log = "[]",
        THEN conjunct2, THEN conjunct2, THEN conjunct2, THEN conjunct1]
    by (simp add: hf_cfg_def fixed_env_def)
  have 4: "generate_speech_audio (hf_cfg\<lparr>hf_loaded := False\<rparr>) ?both ''Hund'' ''de'' []
       = ((Some ''ID3'', Some ''audio/mp3'', Some ''gTTS (Fallback)''), [Gtts_synth ''Hund'' ''de''])"
    using speech_fallback [where cfg = "hf_cfg\<lparr>hf_loaded := False\<rparr>" and e = ?both
        and phrase = "''Hund''" and lang = "''de''" and log = "[]",
        THEN conjunct2, THEN conjunct2, THEN conjunct2, THEN conjunct2, THEN conjunct2,
        THEN conjunct1]
    by (simp add: hf_cfg_def fixed_env_def)
  have 5: "generate_speech_audio hf_cfg ?none ''Hund'' ''de'' []
       = (no_speech, [Hf_synth ''Hund'', Gtts_synth ''Hund'' ''de''])"
    using speech_fallback [where cfg = hf_cfg and e = ?none and phrase = "''Hund''"
        and lang = "''de''" and log = "[]",
        THEN conjunct2, THEN conjunct2, THEN conjunct2, THEN conjunct1]
    by (simp add: hf_cfg_def fixed_env_def)
  have 6: "generate_speech_audio gtts_cfg ?hf ''Hund'' ''de'' []
       = (no_speech, [Gtts_synth ''Hund'' ''de'', Gtts_synth ''Hund'' ''de''])"
    using speech_fallback [where cfg = gtts_cfg and e = ?hf and phrase = "''Hund''"
        and lang = "''de''" and log = "[]",
        THEN conjunct2, THEN conjunct2, THEN conjunct2, THEN conjunct2, THEN conjunct1]
    by (simp add: gtts_cfg_def hf_cfg_def fixed_env_def)
  have 7: "generate_speech_audio (hf_cfg\<lparr>gtts_installed := False\<rparr>) ?gtts ''Hund'' ''de'' []
       = (no_speech, [Hf_synth ''Hund''])"
    using speech_fallback [where cfg = "hf_cfg\<lparr>gtts_installed := False\<rparr>" and e = ?gtts
        and phrase = "''Hund''" and lang = "''de''" and log = "[]",
        THEN conjunct2, THEN conjunct2, THEN conjunct2, THEN conjunct2, THEN conjunct2,
        THEN conjunct2, THEN conjunct1]
    by (simp add: hf_cfg_def fixed_env_def)
  have 8: "generate_speech_audio (gtts_cfg\<lparr>gtts_installed := False\<rparr>) ?both ''Hund'' ''de'' []
       = (no_speech, [])"
    using speech_fallback [where cfg = "gtts_cfg\<lparr>gtts_installed := False\<rparr>" and e = ?both
        and phrase = "''Hund''" and lang = "''de''" and log = "[]",
        THEN conjunct2, THEN conjunct2, THEN conjunct2, THEN conjunct2, THEN conjunct2,
        THEN conjunct2, THEN conjunct2, THEN conjunct1]
    by (simp add: gtts_cfg_def hf_cfg_def fixed_env_def)
  have p: "fst (primary_speech hf_cfg ?gtts ''Hund'' ''de'' []) = no_speech"
    by (simp add: primary_speech_def generate_speech_audio_hf_def hf_cfg_def fixed_env_def)
  have g: "gtts_installed hf_cfg" by (simp add: hf_cfg_def)
  from 1 2 3 4 5 6 7 8 p g show ?thesis by simp
qed



text \<open>
  C8, as the code has it. On the stripped output of the model, the two substitutions of
  the post-processing remove the leading run of quote, markdown and bullet characters
  and white space (\<^verbatim>\<open>" ` ' * > -\<close>), the trailing run of the characters \<^verbatim>\<open>" ` ' *\<close> only,
  and then a leading label "Beispiel:" or "Example:"; the generator returns the output
  cleaned in this way. The output that is a bullet and the quoted sentence "Das ist gut."
  is cleaned to the sentence alone.
\<close>

theorem example_cleaning:
  "clean_sentence (strip raw) = clean_stepwise raw
   \<and> (german_word \<noteq> [] \<and> ollama_chat e log OLLAMA_MODEL_NAME german_word = Chat_content raw
        \<and> strip raw \<noteq> [] \<longrightarrow>
      fst (get_german_example_sentence_ollama e german_word log)
        = Some (clean_stepwise raw))
   \<and> clean_sentence (strip (''- '' @ [CHR 0x22] @ ''Das ist gut.'' @ [CHR 0x22]))
       = ''Das ist gut.''"
proof -
  have "clean_sentence (strip (''- '' @ [CHR 0x22] @ ''Das ist gut.'' @ [CHR 0x22]))
          = ''Das ist gut.''"
    by code_simp
  then show ?thesis
    by (simp add: clean_sentence_stepwise get_german_example_sentence_ollama_def Let_def)
qed

theorem example_cleaning_witness:
  "ollama_chat (fixed_env (Http_json None)
                  (Chat_content (''- '' @ [CHR 0x22] @ ''Das ist gut.'' @ [CHR 0x22])) None None)
     [] OLLAMA_MODEL_NAME ''gut''
     = Chat_content (''- '' @ [CHR 0x22] @ ''Das ist gut.'' @ [CHR 0x22])
   \<and> strip (''- '' @ [CHR 0x22] @ ''Das ist gut.'' @ [CHR 0x22])
       = ''- '' @ [CHR 0x22] @ ''Das ist gut.'' @ [CHR 0x22]
   \<and> clean_stepwise (''- '' @ [CHR 0x22] @ ''Das ist gut.'' @ [CHR 0x22]) = ''Das ist gut.''
   \<and> fst (get_german_example_sentence_ollama
            (fixed_env (Http_json None)
               (Chat_content (''- '' @ [CHR 0x22] @ ''Das ist gut.'' @ [CHR 0x22])) None None)
            ''gut'' [])
       = Some ''Das ist gut.''"
proof -
  let ?raw = "''- '' @ [CHR 0x22] @ ''Das ist gut.'' @ [CHR 0x22]"
  let ?e = "fixed_env (Http_json None) (Chat_content ?raw) None None"
  have c: "ollama_chat ?e [] OLLAMA_MODEL_NAME ''gut'' = Chat_content ?raw"
    by (simp add: fixed_env_def)
  have s: "strip ?raw = ?raw" by code_simp
  have a: "clean_stepwise ?raw = ''Das ist gut.''" by code_simp
  from example_cleaning [of ?raw "''gut''" ?e "[]", THEN conjunct2, THEN conjunct1] c s a
  have "fst (get_german_example_sentence_ollama ?e ''gut'' []) = Some ''Das ist gut.''"
    by simp
  with c s a show ?thesis by simp
qed

text \<open>
  The claim as it was stated fails for the trailing characters: a bullet character at the
  end of the output is kept, where stripping the same characters at both ends removes it.
\<close>

theorem example_cleaning_counterexample:
  "clean_sentence (strip ''Das ist gut. -'') = ''Das ist gut. -''
   \<and> clean_symmetric ''Das ist gut. -'' = ''Das ist gut.''"
proof -
  have "clean_sentence (strip ''Das ist gut. -'') = ''Das ist gut. -''"
    by code_simp
  moreover have "clean_symmetric ''Das ist gut. -'' = ''Das ist gut.''"
    by code_simp
  ultimately show ?thesis by simp
qed

text \<open>
  C9. The claim fails in the code. The word "Hund" is clicked; the first request is
  answered with the translation "dog", the language model gives the example
  "Der Hund bellt.", and the request for the translation of the example raises a
  \<open>ValueError\<close> in \<open>requests.get\<close>. The \<open>except\<close> clause of \<open>translate_text\<close> then reads
  \<open>response\<close>, which is not bound, and \<open>UnboundLocalError\<close> leaves \<open>translate_text\<close> and
  \<open>handle_word_click\<close>: the pair of the word and "dog" is in the session state, but the
  translation of the example stays \<open>None\<close>, and the callback ends with the exception
  where it is to end with the page that shows the pair. When the same request times
  out, the callback ends without an exception and stores the failure marker.
\<close>

theorem example_translation_raises:
  "snd (snd (handle_word_click
        (first_then_env (Http_json (Some ''dog'')) (Get_raised ValueError)
           (Chat_content ''Der Hund bellt.''))
        ''Hund'' (stale_state, []))) = Some UnboundLocalError
   \<and> results_of (fst (handle_word_click
        (first_then_env (Http_json (Some ''dog'')) (Get_raised ValueError)
           (Chat_content ''Der Hund bellt.''))
        ''Hund'' (stale_state, [])))
       = (Some (''Hund'', ''dog''), None, Some ''Hund'', Some ''Der Hund bellt.'', None, None)
   \<and> snd (snd (handle_word_click
        (first_then_env (Http_json (Some ''dog'')) (Get_raised Timeout)
           (Chat_content ''Der Hund bellt.''))
        ''Hund'' (stale_state, []))) = None
   \<and> results_of (fst (handle_word_click
        (first_then_env (Http_json (Some ''dog'')) (Get_raised Timeout)
           (Chat_content ''Der Hund bellt.''))
        ''Hund'' (stale_state, [])))
       = (Some (''Hund'', ''dog''), None, Some ''Hund'', Some ''Der Hund bellt.'',
          Some ''[Example Translation Failed]'', None)"
proof -
  let ?f = "first_then_env (Http_json (Some ''dog'')) (Get_raised ValueError)
              (Chat_content ''Der Hund bellt.'')"
  let ?g = "first_then_env (Http_json (Some ''dog'')) (Get_raised Timeout)
              (Chat_content ''Der Hund bellt.'')"
  have 1: "snd (snd (handle_word_click ?f ''Hund'' (stale_state, []))) = Some UnboundLocalError"
    by code_simp
  have 2: "results_of (fst (handle_word_click ?f ''Hund'' (stale_state, [])))
       = (Some (''Hund'', ''dog''), None, Some ''Hund'', Some ''Der Hund bellt.'', None, None)"
    by code_simp
  have 3: "snd (snd (handle_word_click ?g ''Hund'' (stale_state, []))) = None"
    by code_simp
  have 4: "results_of (fst (handle_word_click ?g ''Hund'' (stale_state, [])))
       = (Some (''Hund'', ''dog''), None, Some ''Hund'', Some ''Der Hund bellt.'',
          Some ''[Example Translation Failed]'', None)"
    by code_simp
  from 1 2 3 4 show ?thesis by simp
qed

text \<open>
  C10. For every sentence, the elements of \<open>split_sentence_with_delimiters\<close> that contain
  a word character are, in the same order, the list \<open>tokenize_sentence\<close>; the test is
  stated both as "some code point of the element is in \<open>\w\<close>" and as the page's
  \<open>re.search\<close> for \<open>\w\<close>.
\<close>

theorem tokenizers_agree:
  "filter (list_ex w) (split_sentence_with_delimiters w s) = tokenize_sentence w s
   \<and> words_with_original_case w (split_sentence_with_delimiters w s) = tokenize_sentence w s"
proof -
  have "filter (list_ex w) (split_sentence_with_delimiters w s) = tokenize_sentence w s"
    by (simp add: split_sentence_with_delimiters_def tokenize_sentence_def words_of_split
        del: filter_filter)
  then show ?thesis by (simp add: words_with_original_case_eq)
qed

end
